theory Spec2Isabelle
  imports Main "HOL-Library.Word" "HOL-Library.Sublist"
begin

section \<open>The webhook bot of \<open>src/pages/api/bot.ts\<close>\<close>

text \<open>
  The module keeps two globals, \<open>messageQueue\<close> and \<open>processingPromise\<close>, a handler that
  admits webhook events and a drain loop (\<open>processQueueParallel\<close>) that answers them in
  batches. Every function of the file is embedded below under its own name. What the
  platform contributes (the network, \<open>setTimeout\<close>, the console) is explicit: a task
  runs in a \<open>world\<close> holding the outcomes the network will deliver, and every fetch,
  delay and log line is appended to the world's trace.
\<close>

subsection \<open>Strings\<close>

text \<open>
  An ECMAScript string is a sequence of 16-bit code units. \<open>js\<close> embeds an ASCII
  literal; literals outside ASCII are written as code units.
\<close>

type_synonym code_unit = "16 word"
type_synonym jsstring = "code_unit list"

definition js :: "string \<Rightarrow> jsstring" where
  "js s = map of_char s"

text \<open>\<open>String.prototype.startsWith\<close> and \<open>String.prototype.includes\<close>
  (\<open>str_includes\<close>).\<close>

definition startsWith :: "jsstring \<Rightarrow> jsstring \<Rightarrow> bool" where
  "startsWith s t = prefix t s"

fun str_includes :: "jsstring \<Rightarrow> jsstring \<Rightarrow> bool" where
  "str_includes [] t = (t = [])"
| "str_includes (c # cs) t = (prefix t (c # cs) \<or> str_includes cs t)"

text \<open>
  \<open>String.prototype.toLowerCase\<close>, on the letters of Basic Latin. The case mappings of
  the other code units are not modelled: none of them yields a letter of the alias
  \<open>@chatgpt\<close>, the only text the source compares a lowered string with.
\<close>

definition lower_unit :: "code_unit \<Rightarrow> code_unit" where
  "lower_unit c = (if 0x41 \<le> c \<and> c \<le> 0x5A then c + 0x20 else c)"

definition toLowerCase :: "jsstring \<Rightarrow> jsstring" where
  "toLowerCase s = map lower_unit s"

text \<open>\<open>String.prototype.trim\<close>: white space and line terminators of ECMAScript.\<close>

definition isWhiteSpace :: "code_unit \<Rightarrow> bool" where
  "isWhiteSpace c \<longleftrightarrow>
     (0x09 \<le> c \<and> c \<le> 0x0D) \<or> c = 0x20 \<or> c = 0xA0 \<or> c = 0x1680 \<or>
     (0x2000 \<le> c \<and> c \<le> 0x200A) \<or> c = 0x2028 \<or> c = 0x2029 \<or> c = 0x202F \<or>
     c = 0x205F \<or> c = 0x3000 \<or> c = 0xFEFF"

definition trim :: "jsstring \<Rightarrow> jsstring" where
  "trim s = rev (dropWhile isWhiteSpace (rev (dropWhile isWhiteSpace s)))"

text \<open>Decimal rendering of a non-negative integer, as a template literal prints it.\<close>

definition digit_unit :: "nat \<Rightarrow> code_unit" where
  "digit_unit d = 0x30 + of_nat d"

fun decimal :: "nat \<Rightarrow> jsstring" where
  "decimal n = (if n < 10 then [digit_unit n] else decimal (n div 10) @ [digit_unit (n mod 10)])"

declare decimal.simps [simp del]

text \<open>
  \<open>content.replace(/@[0-9]+/g, "")\<close>: scanning from the left, an \<open>@\<close> followed by at
  least one digit is removed together with the whole run of digits.
\<close>

definition isDigit :: "code_unit \<Rightarrow> bool" where
  "isDigit c \<longleftrightarrow> 0x30 \<le> c \<and> c \<le> 0x39"

function strip_mentions :: "jsstring \<Rightarrow> jsstring" where
  "strip_mentions [] = []"
| "strip_mentions (c # cs) =
     (if c = 0x40 \<and> takeWhile isDigit cs \<noteq> [] then strip_mentions (dropWhile isDigit cs)
      else c # strip_mentions cs)"
  by pat_completeness auto
termination
  by (relation "measure length") (auto simp: length_dropWhile_le less_Suc_eq_le)

text \<open>
  \<open>encodeURIComponent\<close>: the string is read as UTF-16, each code point outside the
  unreserved set is written as the percent-escaped bytes of its UTF-8 form, and a lone
  surrogate raises \<open>URIError\<close>.
\<close>

datatype error = TypeError | SyntaxError | URIError | AbortError | Error string

definition isHighSurrogate :: "code_unit \<Rightarrow> bool" where
  "isHighSurrogate c \<longleftrightarrow> 0xD800 \<le> c \<and> c \<le> 0xDBFF"

definition isLowSurrogate :: "code_unit \<Rightarrow> bool" where
  "isLowSurrogate c \<longleftrightarrow> 0xDC00 \<le> c \<and> c \<le> 0xDFFF"

fun code_points :: "jsstring \<Rightarrow> error + nat list" where
  "code_points [] = Inr []"
| "code_points (c # cs) =
     (if isLowSurrogate c then Inl URIError
      else if isHighSurrogate c then
        (case cs of
           [] \<Rightarrow> Inl URIError
         | d # ds \<Rightarrow>
             if isLowSurrogate d then
               (case code_points ds of
                  Inl e \<Rightarrow> Inl e
                | Inr ps \<Rightarrow> Inr (((unat c - 0xD800) * 0x400 + (unat d - 0xDC00) + 0x10000) # ps))
             else Inl URIError)
      else
        (case code_points cs of
           Inl e \<Rightarrow> Inl e
         | Inr ps \<Rightarrow> Inr (unat c # ps)))"

definition utf8 :: "nat \<Rightarrow> nat list" where
  "utf8 p =
     (if p < 0x80 then [p]
      else if p < 0x800 then [0xC0 + p div 0x40, 0x80 + p mod 0x40]
      else if p < 0x10000 then [0xE0 + p div 0x1000, 0x80 + p div 0x40 mod 0x40, 0x80 + p mod 0x40]
      else [0xF0 + p div 0x40000, 0x80 + p div 0x1000 mod 0x40, 0x80 + p div 0x40 mod 0x40,
            0x80 + p mod 0x40])"

definition hex_unit :: "nat \<Rightarrow> code_unit" where
  "hex_unit d = (if d < 10 then 0x30 + of_nat d else 0x41 + of_nat (d - 10))"

definition percent :: "nat \<Rightarrow> jsstring" where
  "percent b = [0x25, hex_unit (b div 16), hex_unit (b mod 16)]"

definition unreserved :: "nat \<Rightarrow> bool" where
  "unreserved p \<longleftrightarrow>
     (0x41 \<le> p \<and> p \<le> 0x5A) \<or> (0x61 \<le> p \<and> p \<le> 0x7A) \<or> (0x30 \<le> p \<and> p \<le> 0x39) \<or>
     p \<in> {0x2D, 0x5F, 0x2E, 0x21, 0x7E, 0x2A, 0x27, 0x28, 0x29}"

definition encode_point :: "nat \<Rightarrow> jsstring" where
  "encode_point p = (if unreserved p then [of_nat p] else concat (map percent (utf8 p)))"

definition encodeURIComponent :: "jsstring \<Rightarrow> error + jsstring" where
  "encodeURIComponent s =
     (case code_points s of Inl e \<Rightarrow> Inl e | Inr ps \<Rightarrow> Inr (concat (map encode_point ps)))"

text \<open>\<open>Buffer.from(bytes).toString('base64')\<close>.\<close>

definition base64_unit :: "nat \<Rightarrow> code_unit" where
  "base64_unit d =
     (if d < 26 then 0x41 + of_nat d
      else if d < 52 then 0x61 + of_nat (d - 26)
      else if d < 62 then 0x30 + of_nat (d - 52)
      else if d = 62 then 0x2B else 0x2F)"

fun base64 :: "8 word list \<Rightarrow> jsstring" where
  "base64 (a # b # c # rest) =
     (let n = unat a * 0x10000 + unat b * 0x100 + unat c
      in [base64_unit (n div 0x40000), base64_unit (n div 0x1000 mod 0x40),
          base64_unit (n div 0x40 mod 0x40), base64_unit (n mod 0x40)] @ base64 rest)"
| "base64 [a, b] =
     (let n = unat a * 0x10000 + unat b * 0x100
      in [base64_unit (n div 0x40000), base64_unit (n div 0x1000 mod 0x40),
          base64_unit (n div 0x40 mod 0x40), 0x3D])"
| "base64 [a] =
     (let n = unat a * 0x10000
      in [base64_unit (n div 0x40000), base64_unit (n div 0x1000 mod 0x40), 0x3D, 0x3D])"
| "base64 [] = []"

subsection \<open>JSON values and responses\<close>

text \<open>
  A parsed JSON value. Of a number only its being zero is ever observed (by \<open>!\<close>), so it
  is kept as an integer. A property read that finds nothing gives \<open>undefined\<close>, here
  \<open>None\<close>.
\<close>

datatype json =
    JNull | JBool bool | JNum int | JStr jsstring | JArr "json list"
  | JObj "(jsstring \<times> json) list"

text \<open>Truthiness, as \<open>!v\<close> tests it.\<close>

fun truthy :: "json option \<Rightarrow> bool" where
  "truthy None = False"
| "truthy (Some JNull) = False"
| "truthy (Some (JBool b)) = b"
| "truthy (Some (JNum n)) = (n \<noteq> 0)"
| "truthy (Some (JStr s)) = (s \<noteq> [])"
| "truthy (Some (JArr xs)) = True"
| "truthy (Some (JObj kvs)) = True"

text \<open>
  \<open>v.name\<close> for a name that is neither an index nor a property of a prototype
  (\<open>choices\<close>, \<open>message\<close>, \<open>content\<close>): reading it off \<open>null\<close> or \<open>undefined\<close> raises
  \<open>TypeError\<close>; an object gives the value of its last member of that name (as
  \<open>JSON.parse\<close> keeps it); any other value has no such property.
\<close>

fun get_member :: "json option \<Rightarrow> jsstring \<Rightarrow> error + json option" where
  "get_member None k = Inl TypeError"
| "get_member (Some JNull) k = Inl TypeError"
| "get_member (Some (JObj kvs)) k = Inr (map_of (rev kvs) k)"
| "get_member (Some v) k = Inr None"

text \<open>\<open>v[0]\<close>: the first element of an array, the first code unit of a string, the
  member \<open>"0"\<close> of an object.\<close>

fun get_first :: "json option \<Rightarrow> error + json option" where
  "get_first None = Inl TypeError"
| "get_first (Some JNull) = Inl TypeError"
| "get_first (Some (JArr xs)) = Inr (case xs of [] \<Rightarrow> None | x # _ \<Rightarrow> Some x)"
| "get_first (Some (JStr s)) = Inr (case s of [] \<Rightarrow> None | c # _ \<Rightarrow> Some (JStr [c]))"
| "get_first (Some (JObj kvs)) = Inr (map_of (rev kvs) (js ''0''))"
| "get_first (Some v) = Inr None"

text \<open>\<open>v.trim()\<close>: only a string has the method.\<close>

fun call_trim :: "json option \<Rightarrow> error + jsstring" where
  "call_trim (Some (JStr s)) = Inr (trim s)"
| "call_trim v = Inl TypeError"

text \<open>
  A \<open>Response\<close>: its status and what each of its two body readers settles to
  (\<open>resp.json()\<close> rejects when the body is not JSON or cannot be read).
\<close>

record response =
  status :: nat
  json_body :: "error + json"
  arrayBuffer_body :: "error + 8 word list"

datatype body = NoBody | TextBody jsstring | Stringified json

record request =
  req_url :: jsstring
  req_method :: jsstring
  req_headers :: "(jsstring \<times> jsstring) list"
  req_body :: body

subsection \<open>The world of a task\<close>

text \<open>
  The network is an oracle: the \<open>n\<close>-th fetch a task starts settles after \<open>elapsed\<close>
  milliseconds with \<open>result\<close> (a rejection or a response of any status). Every awaited
  promise of the platform is taken to settle.
\<close>

datatype outcome = Outcome (elapsed: nat) (result: "error + response")

datatype event = EvFetch request | EvDelay nat | EvLog jsstring | EvError jsstring

record world =
  network :: "nat \<Rightarrow> outcome"
  fetches :: nat
  now :: nat
  trace :: "event list"

text \<open>
  \<open>fetch(url, options)\<close>; \<open>signal\<close> is the delay after which the request is aborted, if
  an abort signal is attached.
\<close>

definition fetch :: "request \<Rightarrow> nat option \<Rightarrow> world \<Rightarrow> (error + response) \<times> world" where
  "fetch req signal w =
     (let out = network w (fetches w);
          w' = w\<lparr>fetches := fetches w + 1, trace := trace w @ [EvFetch req]\<rparr>
      in case signal of
           None \<Rightarrow> (result out, w'\<lparr>now := now w + elapsed out\<rparr>)
         | Some timeout \<Rightarrow>
             if elapsed out < timeout then (result out, w'\<lparr>now := now w + elapsed out\<rparr>)
             else (Inl AbortError, w'\<lparr>now := now w + timeout\<rparr>))"

text \<open>\<open>await new Promise(res => setTimeout(res, ms))\<close>.\<close>

definition delay :: "nat \<Rightarrow> world \<Rightarrow> world" where
  "delay ms w = w\<lparr>now := now w + ms, trace := trace w @ [EvDelay ms]\<rparr>"

text \<open>\<open>log(message, data)\<close> and \<open>console.error\<close>: the line is recorded by its message.\<close>

definition log :: "jsstring \<Rightarrow> world \<Rightarrow> world" where
  "log message w = w\<lparr>trace := trace w @ [EvLog message]\<rparr>"

definition console_error :: "jsstring \<Rightarrow> world \<Rightarrow> world" where
  "console_error message w = w\<lparr>trace := trace w @ [EvError message]\<rparr>"

subsection \<open>Resilient transport\<close>

definition measureTime ::
  "jsstring \<Rightarrow> (world \<Rightarrow> (error + 'a) \<times> world) \<Rightarrow> world \<Rightarrow> (error + 'a) \<times> world" where
  "measureTime name fn w =
     (let start = now w in
      case fn w of
        (Inl e, w') \<Rightarrow> (Inl e, w')
      | (Inr r, w') \<Rightarrow>
          (Inr r, log (name @ js '' took '' @ decimal (now w' - start) @ js ''ms'') w'))"

definition fetchWithTimeout :: "request \<Rightarrow> nat \<Rightarrow> world \<Rightarrow> (error + response) \<times> world" where
  "fetchWithTimeout req timeout w =
     (case fetch req (Some timeout) w of
        (Inr resp, w') \<Rightarrow> (Inr resp, w')
      | (Inl err, w') \<Rightarrow> (Inl err, w'))"

text \<open>
  The \<open>for\<close> loop of \<open>fetchWithRetry\<close>, entered with its counter at \<open>i\<close>. The number
  \<open>maxRetries\<close> is taken to be an integer; every call in the file passes the default 3.
\<close>

function fetchWithRetry_from ::
  "int \<Rightarrow> request \<Rightarrow> int \<Rightarrow> world \<Rightarrow> (error + response) \<times> world" where
  "fetchWithRetry_from i req maxRetries w =
     (if i < maxRetries then
        (case fetchWithTimeout req 30000 w of
           (Inr resp, w') \<Rightarrow> (Inr resp, w')
         | (Inl err, w') \<Rightarrow>
             if i = maxRetries - 1 then (Inl err, w')
             else fetchWithRetry_from (i + 1) req maxRetries (delay (1000 * 2 ^ nat i) w'))
      else (Inl (Error ''Max retries reached''), w))"
  by pat_completeness auto
termination
  by (relation "measure (\<lambda>(i, req, maxRetries, w). nat (maxRetries - i))") auto

definition fetchWithRetry :: "request \<Rightarrow> int \<Rightarrow> world \<Rightarrow> (error + response) \<times> world" where
  "fetchWithRetry req maxRetries w = fetchWithRetry_from 0 req maxRetries w"

subsection \<open>Messages and configuration\<close>

text \<open>
  The type \<open>Message\<close> (\<open>@/types/vocechat\<close>) and the constants of \<open>@/utils/app/const\<close>
  are declared outside this file. A message is modelled by the fields the code reads;
  a property \<open>content_type\<close> may hold a string or a value of another type. The constants
  and the environment variables are parameters; \<open>VOCECHAT_BOT_ID\<close> is a user id, compared
  with user ids by \<open>==\<close> and printed in decimal.
\<close>

datatype prop_value = PString jsstring | POther

record properties =
  mentions :: "nat list option"
  prop_content_type :: "prop_value option"

record detail =
  content_type :: jsstring
  content :: jsstring
  properties :: "properties option"

datatype target = ToGroup nat | ToUser nat

record Message =
  mid :: nat
  from_uid :: nat
  target :: target
  detail :: detail

record config =
  VOCECHAT_ORIGIN :: jsstring
  VOCECHAT_BOT_ID :: nat
  VOCECHAT_BOT_SECRET :: jsstring
  env_DEFAULT_MODEL :: "jsstring option"
  env_OPENAI_API_HOST :: "jsstring option"
  env_OPENAI_API_KEY :: "jsstring option"

text \<open>\<open>v || d\<close> on an environment variable: unset or empty gives the default.\<close>

definition or_default :: "jsstring option \<Rightarrow> jsstring \<Rightarrow> jsstring" where
  "or_default v d = (case v of None \<Rightarrow> d | Some s \<Rightarrow> if s = [] then d else s)"

text \<open>An environment variable inside a template literal.\<close>

definition interpolate :: "jsstring option \<Rightarrow> jsstring" where
  "interpolate v = (case v of None \<Rightarrow> js ''undefined'' | Some s \<Rightarrow> s)"

subsection \<open>Reply dispatcher\<close>

definition reply_request :: "config \<Rightarrow> jsstring \<Rightarrow> jsstring \<Rightarrow> request" where
  "reply_request cfg url message =
     \<lparr>req_url = url, req_method = js ''POST'',
      req_headers = [(js ''content-type'', js ''text/markdown''),
                     (js ''x-api-key'', VOCECHAT_BOT_SECRET cfg)],
      req_body = TextBody message\<rparr>"

definition sendMessageToBot ::
  "config \<Rightarrow> jsstring \<Rightarrow> jsstring \<Rightarrow> world \<Rightarrow> (error + unit) \<times> world" where
  "sendMessageToBot cfg url message w =
     (case fetchWithRetry (reply_request cfg url message) 3 w of
        (Inl error, w') \<Rightarrow> (Inl error, log (js ''bot: send failed'') w')
      | (Inr resp, w') \<Rightarrow>
          (case json_body resp of
             Inl error \<Rightarrow> (Inl error, log (js ''bot: send failed'') w')
           | Inr jsonResp \<Rightarrow> (Inr (), log (js ''bot: send successfully'') w')))"

subsection \<open>Response generator\<close>

definition processMessageContent :: "jsstring \<Rightarrow> jsstring" where
  "processMessageContent c = trim (strip_mentions c)"

definition image_request :: "jsstring \<Rightarrow> request" where
  "image_request imageUrl =
     \<lparr>req_url = imageUrl, req_method = js ''GET'', req_headers = [], req_body = NoBody\<rparr>"

definition getImageBase64 :: "jsstring \<Rightarrow> jsstring \<Rightarrow> world \<Rightarrow> (error + jsstring) \<times> world" where
  "getImageBase64 imageUrl contentType w =
     (case fetch (image_request imageUrl) None w of
        (Inl e, w') \<Rightarrow> (Inl e, w')
      | (Inr resp, w') \<Rightarrow>
          (case arrayBuffer_body resp of
             Inl e \<Rightarrow> (Inl e, w')
           | Inr arrayBuffer \<Rightarrow>
               (Inr (js ''data:'' @ contentType @ js '';base64,'' @ base64 arrayBuffer), w')))"

definition isImageMessage :: "Message \<Rightarrow> bool" where
  "isImageMessage message \<longleftrightarrow>
     content_type (detail message) = js ''vocechat/file'' \<and>
     (case properties (detail message) of
        None \<Rightarrow> False
      | Some p \<Rightarrow>
          (case prop_content_type p of
             Some (PString t) \<Rightarrow> startsWith t (js ''image/'')
           | _ \<Rightarrow> False))"

text \<open>The three fixed replies (lines 131 and 176, line 178, line 198).\<close>

definition IMAGE_APOLOGY :: jsstring where
  "IMAGE_APOLOGY =
     [0x62B1, 0x6B49, 0xFF0C, 0x6211, 0x5728, 0x5904, 0x7406, 0x56FE, 0x7247, 0x65F6, 0x9047,
      0x5230, 0x4E86, 0x95EE, 0x9898, 0x3002, 0x8BF7, 0x7A0D, 0x540E, 0x518D, 0x8BD5, 0x6216,
      0x8054, 0x7CFB, 0x652F, 0x6301, 0x4EBA, 0x5458, 0x3002]"

definition TEXT_APOLOGY :: jsstring where
  "TEXT_APOLOGY =
     [0x62B1, 0x6B49, 0xFF0C, 0x6211, 0x73B0, 0x5728, 0x65E0, 0x6CD5, 0x5904, 0x7406, 0x60A8,
      0x7684, 0x8BF7, 0x6C42, 0x3002, 0x8BF7, 0x7A0D, 0x540E, 0x518D, 0x8BD5, 0x3002]"

definition errorMessage :: jsstring where
  "errorMessage =
     [0x62B1, 0x6B49, 0xFF0C, 0x5904, 0x7406, 0x60A8, 0x7684, 0x6D88, 0x606F, 0x65F6, 0x51FA,
      0x73B0, 0x4E86, 0x95EE, 0x9898, 0x3002, 0x8BF7, 0x7A0D, 0x540E, 0x518D, 0x8BD5, 0x3002]"

text \<open>The two request bodies (lines 103 to 128 and 137 to 152), before \<open>JSON.stringify\<close>.\<close>

definition IMAGE_SYSTEM_PROMPT :: jsstring where
  "IMAGE_SYSTEM_PROMPT =
     js ''You are GPT, a large language model trained by '' @
     [0x63A2, 0x7D22, 0x5206, 0x4EAB] @ js ''. '' @
     [0x56DE, 0x7B54, 0x5168, 0x90E8, 0x7528] @ js ''markdown'' @ [0x683C, 0x5F0F, 0x3002]"

definition IMAGE_QUESTION :: jsstring where
  "IMAGE_QUESTION =
     [0x8FD9, 0x4E2A, 0x56FE, 0x7247, 0x63CF, 0x8FF0, 0x4E86, 0x4EC0, 0x4E48, 0xFF1F, 0x8BF7,
      0x8BE6, 0x7EC6, 0x5206, 0x6790, 0x3002]"

definition TEXT_SYSTEM_PROMPT :: jsstring where
  "TEXT_SYSTEM_PROMPT =
     js ''You are an AI assistant. Answer the user'' @ [0x27] @
     js ''s question concisely and accurately.''"

definition image_requestBody :: "jsstring \<Rightarrow> jsstring \<Rightarrow> json" where
  "image_requestBody model imageBase64 =
     JObj [(js ''max_tokens'', JNum 4096),
           (js ''model'', JStr model),
           (js ''messages'', JArr
              [JObj [(js ''role'', JStr (js ''system'')),
                     (js ''content'', JStr IMAGE_SYSTEM_PROMPT)],
               JObj [(js ''role'', JStr (js ''user'')),
                     (js ''content'', JArr
                        [JObj [(js ''type'', JStr (js ''text'')),
                               (js ''text'', JStr IMAGE_QUESTION)],
                         JObj [(js ''type'', JStr (js ''image_url'')),
                               (js ''image_url'', JObj [(js ''url'', JStr imageBase64)])]])]]),
           (js ''stream'', JBool False)]"

definition text_requestBody :: "jsstring \<Rightarrow> jsstring \<Rightarrow> json" where
  "text_requestBody model prompt =
     JObj [(js ''model'', JStr model),
           (js ''messages'', JArr
              [JObj [(js ''role'', JStr (js ''system'')),
                     (js ''content'', JStr TEXT_SYSTEM_PROMPT)],
               JObj [(js ''role'', JStr (js ''user'')),
                     (js ''content'', JStr prompt)]]),
           (js ''max_tokens'', JNum 2000),
           (js ''temperature'', JNum 1),
           (js ''stream'', JBool False)]"

text \<open>
  Lines 88 to 90 are the three definitions that follow. Then lines 94 to 153 of
  \<open>processMessage\<close> (\<open>prepare\<close>): the request body is built, unless the image
  branch has already returned its apology (line 131). The image URL is built before
  the \<open>try\<close> of line 100, so an error of \<open>encodeURIComponent\<close> is not caught here.
\<close>

datatype prepared = Returned jsstring | RequestBody json

definition TEXT_MODEL :: "config \<Rightarrow> jsstring" where
  "TEXT_MODEL cfg = or_default (env_DEFAULT_MODEL cfg) (js ''gpt-3.5-turbo'')"

definition IMAGE_MODEL :: "config \<Rightarrow> jsstring" where
  "IMAGE_MODEL cfg = or_default (env_DEFAULT_MODEL cfg) (js ''claude-3-5-sonnet-20240620'')"

definition API_HOST :: "config \<Rightarrow> jsstring" where
  "API_HOST cfg = or_default (env_OPENAI_API_HOST cfg) (js ''https://api.openai.com'')"

definition prepare :: "config \<Rightarrow> Message \<Rightarrow> world \<Rightarrow> (error + prepared) \<times> world" where
  "prepare cfg message w =
     (if isImageMessage message then
        (let filePath = content (detail message) in
         case encodeURIComponent filePath of
           Inl e \<Rightarrow> (Inl e, w)
         | Inr encoded \<Rightarrow>
             (let imageUrl = VOCECHAT_ORIGIN cfg @ js ''/api/resource/file?file_path='' @ encoded;
                  contentType =
                    (case properties (detail message) of
                       Some p \<Rightarrow> (case prop_content_type p of Some (PString t) \<Rightarrow> t | _ \<Rightarrow> [])
                     | None \<Rightarrow> [])
              in case getImageBase64 imageUrl contentType w of
                   (Inr imageBase64, w') \<Rightarrow>
                     (Inr (RequestBody (image_requestBody (IMAGE_MODEL cfg) imageBase64)), w')
                 | (Inl error, w') \<Rightarrow>
                     (Inr (Returned IMAGE_APOLOGY),
                      log (js ''Error fetching or converting image'') w')))
      else
        (let prompt = processMessageContent (content (detail message))
         in (Inr (RequestBody (text_requestBody (TEXT_MODEL cfg) prompt)), w)))"

text \<open>Lines 167 to 171: the reply is read out of the parsed response.\<close>

definition read_reply :: "json \<Rightarrow> error + jsstring" where
  "read_reply aiData =
     (case get_member (Some aiData) (js ''choices'') of
        Inl e \<Rightarrow> Inl e
      | Inr choices \<Rightarrow>
          if \<not> truthy choices then Inl (Error ''Unexpected API response format'')
          else
            (case get_first choices of
               Inl e \<Rightarrow> Inl e
             | Inr choice \<Rightarrow>
                 if \<not> truthy choice then Inl (Error ''Unexpected API response format'')
                 else
                   (case get_member choice (js ''message'') of
                      Inl e \<Rightarrow> Inl e
                    | Inr msg \<Rightarrow>
                        if \<not> truthy msg then Inl (Error ''Unexpected API response format'')
                        else
                          (case get_member msg (js ''content'') of
                             Inl e \<Rightarrow> Inl e
                           | Inr c \<Rightarrow> call_trim c))))"

text \<open>Lines 156 to 171: the body of the second \<open>try\<close>.\<close>

definition completion_request :: "config \<Rightarrow> json \<Rightarrow> request" where
  "completion_request cfg requestBody =
     \<lparr>req_url = API_HOST cfg @ js ''/v1/chat/completions'', req_method = js ''POST'',
      req_headers =
        [(js ''Content-Type'', js ''application/json''),
         (js ''Authorization'', js ''Bearer '' @ interpolate (env_OPENAI_API_KEY cfg))],
      req_body = Stringified requestBody\<rparr>"

definition complete :: "config \<Rightarrow> json \<Rightarrow> world \<Rightarrow> (error + jsstring) \<times> world" where
  "complete cfg requestBody w =
     (case measureTime (js ''AI API call'')
             (fetchWithRetry (completion_request cfg requestBody) 3) w of
        (Inl e, w') \<Rightarrow> (Inl e, w')
      | (Inr aiResp, w') \<Rightarrow>
          (case json_body aiResp of
             Inl e \<Rightarrow> (Inl e, w')
           | Inr aiData \<Rightarrow> (read_reply aiData, w')))"

definition processMessage :: "config \<Rightarrow> Message \<Rightarrow> world \<Rightarrow> (error + jsstring) \<times> world" where
  "processMessage cfg message w =
     (case prepare cfg message w of
        (Inl e, w1) \<Rightarrow> (Inl e, w1)
      | (Inr (Returned apology), w1) \<Rightarrow> (Inr apology, w1)
      | (Inr (RequestBody requestBody), w1) \<Rightarrow>
          (case complete cfg requestBody w1 of
             (Inr reply, w2) \<Rightarrow> (Inr reply, w2)
           | (Inl error, w2) \<Rightarrow>
               (let w3 = console_error (js ''Full error object:'')
                           (log (js ''Error calling OpenAI API'') w2)
                in if isImageMessage message then (Inr IMAGE_APOLOGY, w3)
                   else (Inr TEXT_APOLOGY, w3))))"

subsection \<open>Queue and drain scheduler\<close>

text \<open>
  The callback that \<open>processQueueParallel\<close> maps over a batch (lines 190 to 206): the
  generator, then the dispatcher; whatever either throws is answered by one delivery
  of \<open>errorMessage\<close>, whose own failure is logged.
\<close>

definition reply_url :: "config \<Rightarrow> Message \<Rightarrow> jsstring" where
  "reply_url cfg message = VOCECHAT_ORIGIN cfg @ js ''/api/bot/reply/'' @ decimal (mid message)"

definition on_error :: "config \<Rightarrow> Message \<Rightarrow> world \<Rightarrow> (error + unit) \<times> world" where
  "on_error cfg message w =
     (case sendMessageToBot cfg (reply_url cfg message) errorMessage
             (log (js ''Error processing message'') w) of
        (Inr u, w') \<Rightarrow> (Inr (), w')
      | (Inl sendError, w') \<Rightarrow> (Inr (), log (js ''Error sending error message to user'') w'))"

definition batch_task :: "config \<Rightarrow> Message \<Rightarrow> world \<Rightarrow> (error + unit) \<times> world" where
  "batch_task cfg message w =
     (case processMessage cfg message w of
        (Inl error, w1) \<Rightarrow> on_error cfg message w1
      | (Inr reply, w1) \<Rightarrow>
          (case sendMessageToBot cfg (reply_url cfg message) reply w1 of
             (Inl error, w2) \<Rightarrow> on_error cfg message w2
           | (Inr u, w2) \<Rightarrow> (Inr (), w2)))"

text \<open>
  The state of the module: its two globals, and the drain loops that are suspended at
  their \<open>await\<close>, each with its \<open>maxConcurrent\<close> and the batch it waits for. Three more
  components only record history and are never read by the code: every message ever
  pushed (\<open>enqueued\<close>), every batch ever spliced off (\<open>batches\<close>), and the console
  together with the traces of the finished tasks (\<open>console\<close>).
\<close>

datatype promise = Promise

record loop =
  maxConcurrent :: int
  batch :: "Message list"

record state =
  messageQueue :: "Message list"
  processingPromise :: "promise option"
  loops :: "loop list"
  enqueued :: "Message list"
  batches :: "Message list list"
  console :: "event list"

definition initial :: state where
  "initial = \<lparr>messageQueue = [], processingPromise = None, loops = [], enqueued = [],
              batches = [], console = []\<rparr>"

text \<open>
  One turn of the \<open>while\<close> of \<open>processQueueParallel\<close>, from its test to the next
  suspension: either a batch is spliced off the front of the queue and the loop waits
  for it, or the queue is empty, the flag is cleared and the loop is over. There is no
  \<open>await\<close> between the test of line 188 and the assignment of line 208, nor between the
  test and the \<open>splice\<close>, so a turn is one uninterrupted step of the event loop.
  \<open>splice(0, n)\<close> removes nothing when \<open>n\<close> is negative.
\<close>

definition loop_turn :: "int \<Rightarrow> state \<Rightarrow> state" where
  "loop_turn n s =
     (if length (messageQueue s) > 0 then
        (let b = take (nat n) (messageQueue s)
         in s\<lparr>messageQueue := drop (nat n) (messageQueue s),
              loops := loops s @ [\<lparr>maxConcurrent = n, batch = b\<rparr>],
              batches := batches s @ [b]\<rparr>)
      else s\<lparr>processingPromise := None\<rparr>)"

text \<open>The call of \<open>processQueueParallel\<close>: it runs up to its first suspension.\<close>

definition processQueueParallel :: "int \<Rightarrow> state \<Rightarrow> state" where
  "processQueueParallel n s = loop_turn n s"

text \<open>
  The batch of the \<open>i\<close>-th suspended loop settles: task \<open>j\<close> of the batch has run against
  the network \<open>nets j\<close>. \<open>Promise.all\<close> rejects if a task does, and the rejection would
  leave \<open>processQueueParallel\<close> before line 208; otherwise the loop takes its next turn.
\<close>

definition fresh_world :: "(nat \<Rightarrow> outcome) \<Rightarrow> world" where
  "fresh_world net = \<lparr>network = net, fetches = 0, now = 0, trace = []\<rparr>"

definition run_batch ::
  "config \<Rightarrow> (nat \<Rightarrow> nat \<Rightarrow> outcome) \<Rightarrow> Message list \<Rightarrow> ((error + unit) \<times> world) list" where
  "run_batch cfg nets b =
     map (\<lambda>(j, message). batch_task cfg message (fresh_world (nets j))) (enumerate 0 b)"

definition settle_batch :: "config \<Rightarrow> nat \<Rightarrow> (nat \<Rightarrow> nat \<Rightarrow> outcome) \<Rightarrow> state \<Rightarrow> state" where
  "settle_batch cfg i nets s =
     (if i < length (loops s) then
        (let l = loops s ! i;
             results = run_batch cfg nets (batch l);
             s' = s\<lparr>loops := take i (loops s) @ drop (Suc i) (loops s),
                    console := console s @ concat (map (\<lambda>r. trace (snd r)) results)\<rparr>
         in if list_all (\<lambda>r. \<not> isl (fst r)) results then loop_turn (maxConcurrent l) s' else s')
      else s)"

subsection \<open>Ingress admission\<close>

record http_request =
  http_method :: jsstring
  http_json :: "error + Message"

record http_response =
  http_status :: nat
  http_text :: jsstring

definition say :: "jsstring \<Rightarrow> state \<Rightarrow> state" where
  "say message s = s\<lparr>console := console s @ [EvLog message]\<rparr>"

definition mentionedAtGroup :: "config \<Rightarrow> Message \<Rightarrow> bool" where
  "mentionedAtGroup cfg data \<longleftrightarrow>
     (let ms = (case properties (detail data) of
                  None \<Rightarrow> []
                | Some p \<Rightarrow> (case mentions p of None \<Rightarrow> [] | Some l \<Rightarrow> l))
      in list_ex (\<lambda>m. m = VOCECHAT_BOT_ID cfg) ms \<or>
         str_includes (content (detail data)) (js ''@'' @ decimal (VOCECHAT_BOT_ID cfg)) \<or>
         str_includes (toLowerCase (content (detail data))) (js ''@chatgpt''))"

definition in_group :: "target \<Rightarrow> bool" where
  "in_group t = (case t of ToGroup gid \<Rightarrow> True | ToUser uid \<Rightarrow> False)"

definition handler :: "config \<Rightarrow> http_request \<Rightarrow> state \<Rightarrow> http_response \<times> state" where
  "handler cfg req s =
     (let s0 = say (js ''bot: from webhook push'') s in
      if http_method req = js ''POST'' then
        (case http_json req of
           Inl error \<Rightarrow>
             (\<lparr>http_status = 500, http_text = js ''Error processing request''\<rparr>,
              say (js ''Error processing POST request'') s0)
         | Inr data \<Rightarrow>
             (let s1 = say (js ''bot: handler POST'') s0 in
              if from_uid data = VOCECHAT_BOT_ID cfg then
                (\<lparr>http_status = 200, http_text = js ''ignore sent by bot self''\<rparr>, s1)
              else if in_group (target data) \<and> \<not> mentionedAtGroup cfg data then
                (\<lparr>http_status = 200, http_text = js ''ignore not mention at group''\<rparr>, s1)
              else
                (let s2 = s1\<lparr>messageQueue := messageQueue s1 @ [data],
                              enqueued := enqueued s1 @ [data]\<rparr>;
                     s3 = (if processingPromise s2 = None
                           then (processQueueParallel 3 s2)\<lparr>processingPromise := Some Promise\<rparr>
                           else s2)
                 in (\<lparr>http_status = 200, http_text = js ''Message queued''\<rparr>, s3))))
      else if http_method req = js ''GET'' then
        (\<lparr>http_status = 200, http_text = js ''GET: bot resp''\<rparr>, s0)
      else
        (\<lparr>http_status = 405, http_text = http_method req @ js '': bot resp''\<rparr>, s0))"

subsection \<open>Executions\<close>

text \<open>
  The event loop runs one thing at a time: a webhook request is handled, or the batch
  of a suspended drain loop settles and that loop goes on. An execution of the module
  is a sequence of such actions from the initial state.
\<close>

datatype action = Webhook http_request | BatchSettled nat "nat \<Rightarrow> nat \<Rightarrow> outcome"

definition step :: "config \<Rightarrow> state \<Rightarrow> action \<Rightarrow> state" where
  "step cfg s a =
     (case a of
        Webhook req \<Rightarrow> snd (handler cfg req s)
      | BatchSettled i nets \<Rightarrow> settle_batch cfg i nets s)"

definition run :: "config \<Rightarrow> action list \<Rightarrow> state" where
  "run cfg acts = foldl (step cfg) initial acts"

subsection \<open>Observations\<close>

text \<open>
  What the \<open>j\<close>-th attempt that \<open>fetchWithRetry\<close> may still make in world \<open>w\<close> comes to:
  the outcome of the network if it arrives within the 30000 ms of \<open>fetchWithTimeout\<close>,
  the abort otherwise.
\<close>

definition attempt :: "world \<Rightarrow> nat \<Rightarrow> error + response" where
  "attempt w j =
     (let out = network w (fetches w + j)
      in if elapsed out < 30000 then result out else Inl AbortError)"

text \<open>The number of leading failures among the next \<open>n\<close> attempts, and the number of
  attempts a call with \<open>maxRetries = n\<close> therefore makes.\<close>

definition failed_run :: "world \<Rightarrow> nat \<Rightarrow> nat" where
  "failed_run w n = length (takeWhile (\<lambda>j. isl (attempt w j)) [0..<n])"

definition attempts_made :: "world \<Rightarrow> nat \<Rightarrow> nat" where
  "attempts_made w n = min n (failed_run w n + 1)"

text \<open>The events of \<open>k\<close> attempts, the first of them made with the loop counter at \<open>i\<close>.\<close>

fun backoff_trace :: "request \<Rightarrow> nat \<Rightarrow> nat \<Rightarrow> event list" where
  "backoff_trace req i 0 = []"
| "backoff_trace req i (Suc 0) = [EvFetch req]"
| "backoff_trace req i (Suc (Suc k)) =
     EvFetch req # EvDelay (1000 * 2 ^ i) # backoff_trace req (Suc i) (Suc k)"

text \<open>The events a computation added to the trace.\<close>

definition emitted :: "world \<Rightarrow> world \<Rightarrow> event list" where
  "emitted w w' = drop (length (trace w)) (trace w')"

text \<open>For each fetch of a trace, the time slept since the fetch before it.\<close>

fun waits :: "nat \<Rightarrow> event list \<Rightarrow> nat list" where
  "waits acc [] = []"
| "waits acc (EvFetch r # es) = acc # waits 0 es"
| "waits acc (EvDelay ms # es) = waits (acc + ms) es"
| "waits acc (e # es) = waits acc es"

text \<open>The requests fetched, in order.\<close>

definition fetched :: "event list \<Rightarrow> request list" where
  "fetched es = concat (map (\<lambda>e. case e of EvFetch r \<Rightarrow> [r] | _ \<Rightarrow> []) es)"

definition fetch_count :: "event list \<Rightarrow> nat" where
  "fetch_count es = length (filter (\<lambda>e. case e of EvFetch r \<Rightarrow> True | _ \<Rightarrow> False) es)"

text \<open>
  The calls of the dispatcher that a trace shows: \<open>sendMessageToBot\<close> ends every call
  with one of its two log lines, and the request it was delivering is the one fetched
  last. Each call is listed with that request and whether it succeeded.
\<close>

fun dispatches :: "request option \<Rightarrow> event list \<Rightarrow> (request option \<times> bool) list" where
  "dispatches cur [] = []"
| "dispatches cur (EvFetch r # es) = dispatches (Some r) es"
| "dispatches cur (EvLog m # es) =
     (if m = js ''bot: send successfully'' then (cur, True) # dispatches cur es
      else if m = js ''bot: send failed'' then (cur, False) # dispatches cur es
      else dispatches cur es)"
| "dispatches cur (e # es) = dispatches cur es"

definition send_line :: "event \<Rightarrow> bool" where
  "send_line e \<longleftrightarrow> e = EvLog (js ''bot: send successfully'') \<or> e = EvLog (js ''bot: send failed'')"

definition send_calls :: "event list \<Rightarrow> nat" where
  "send_calls es = length (filter send_line es)"

text \<open>
  What the generation backend answers to the call that \<open>processMessage\<close> makes in world
  \<open>w\<close>: the last attempt of the transport, its body parsed, the reply read out of it.
\<close>

definition backend_reply :: "world \<Rightarrow> error + jsstring" where
  "backend_reply w =
     (case attempt w (attempts_made w 3 - 1) of
        Inl e \<Rightarrow> Inl e
      | Inr resp \<Rightarrow> (case json_body resp of Inl e \<Rightarrow> Inl e | Inr d \<Rightarrow> read_reply d))"

text \<open>Whether the download of the image, the next fetch in world \<open>w\<close>, fails.\<close>

definition image_failed :: "world \<Rightarrow> bool" where
  "image_failed w =
     (case result (network w (fetches w)) of
        Inl e \<Rightarrow> True
      | Inr resp \<Rightarrow> isl (arrayBuffer_body resp))"

text \<open>The user prompt that a request to the generation backend carries: the content
  of the second of its \<open>messages\<close>.\<close>

definition user_prompt :: "request \<Rightarrow> json option" where
  "user_prompt r =
     (case req_body r of
        Stringified b \<Rightarrow>
          (case get_member (Some b) (js ''messages'') of
             Inr (Some (JArr (system # user # rest))) \<Rightarrow>
               (case get_member (Some user) (js ''content'') of Inr c \<Rightarrow> c | Inl e \<Rightarrow> None)
           | _ \<Rightarrow> None)
      | _ \<Rightarrow> None)"

text \<open>
  The invariant of the executions: at most one drain loop is suspended, the flag is set
  exactly while one is, the queue is empty when none is, every message ever pushed is
  either in a batch that was spliced off or still in the queue, in the order of its
  arrival, and every loop takes at least one message per turn.
\<close>

definition consistent :: "state \<Rightarrow> bool" where
  "consistent s \<longleftrightarrow>
     length (loops s) \<le> 1 \<and>
     (processingPromise s = None \<longleftrightarrow> loops s = []) \<and>
     (loops s = [] \<longrightarrow> messageQueue s = []) \<and>
     enqueued s = concat (batches s) @ messageQueue s \<and>
     (\<forall>l\<in>set (loops s). 0 < maxConcurrent l)"

text \<open>
  The mention of the bot in the words of the specification, to be compared with
  \<open>mentionedAtGroup\<close>: the bot's id is in the list of mentions, or the content contains
  the text \<open>@\<close> followed by the id, or the content contains the alias \<open>@chatgpt\<close> in
  some capitalisation.
\<close>

definition mentioned :: "config \<Rightarrow> Message \<Rightarrow> bool" where
  "mentioned cfg data \<longleftrightarrow>
     (\<exists>p l. properties (detail data) = Some p \<and> mentions p = Some l \<and>
            VOCECHAT_BOT_ID cfg \<in> set l) \<or>
     sublist (js ''@'' @ decimal (VOCECHAT_BOT_ID cfg)) (content (detail data)) \<or>
     (\<exists>u. sublist u (content (detail data)) \<and> toLowerCase u = js ''@chatgpt'')"

subsection \<open>Sample inputs\<close>

text \<open>Concrete requests, responses and networks on which the theorems are instantiated.\<close>

definition sample_config :: config where
  "sample_config =
     \<lparr>VOCECHAT_ORIGIN = js ''https://chat.example.org'', VOCECHAT_BOT_ID = 2,
      VOCECHAT_BOT_SECRET = js ''secret'', env_DEFAULT_MODEL = None,
      env_OPENAI_API_HOST = None, env_OPENAI_API_KEY = Some (js ''key'')\<rparr>"

definition ping :: request where
  "ping = \<lparr>req_url = js ''https://example.org/'', req_method = js ''POST'', req_headers = [],
           req_body = TextBody (js ''hi'')\<rparr>"

definition ok_response :: response where
  "ok_response = \<lparr>status = 200, json_body = Inr JNull, arrayBuffer_body = Inr []\<rparr>"

definition error_response :: response where
  "error_response = \<lparr>status = 500, json_body = Inr (JObj []), arrayBuffer_body = Inr []\<rparr>"

text \<open>The first attempt is refused, every later one is answered.\<close>

definition flaky :: "nat \<Rightarrow> outcome" where
  "flaky n = (if n = 0 then Outcome 120 (Inl TypeError) else Outcome 80 (Inr ok_response))"

text \<open>The first attempt is refused, the second hangs until it is aborted, the third is
  answered.\<close>

definition recovering :: "nat \<Rightarrow> outcome" where
  "recovering n =
     (if n = 0 then Outcome 120 (Inl TypeError)
      else if n = 1 then Outcome 45000 (Inr ok_response)
      else Outcome 80 (Inr ok_response))"

text \<open>Nothing is reachable, for one task and for every task of a batch.\<close>

definition offline :: "nat \<Rightarrow> outcome" where
  "offline n = Outcome 10 (Inl TypeError)"

definition all_offline :: "nat \<Rightarrow> nat \<Rightarrow> outcome" where
  "all_offline j = offline"

text \<open>The first request is answered too late for the timeout, every later one with
  status 500.\<close>

definition late_error :: "nat \<Rightarrow> outcome" where
  "late_error n = (if n = 0 then Outcome 30000 (Inr ok_response) else Outcome 50 (Inr error_response))"

text \<open>Messages: plain text, a file that is no image, an image, and an image whose file
  path is a lone surrogate.\<close>

definition text_message :: "nat \<Rightarrow> Message" where
  "text_message n =
     \<lparr>mid = n, from_uid = 7, target = ToUser 2,
      detail = \<lparr>content_type = js ''text/plain'', content = js ''hello'', properties = None\<rparr>\<rparr>"

definition pdf_message :: Message where
  "pdf_message =
     \<lparr>mid = 11, from_uid = 7, target = ToUser 2,
      detail = \<lparr>content_type = js ''vocechat/file'', content = js '' @12 2024/report.pdf '',
                properties = Some \<lparr>mentions = None,
                                   prop_content_type = Some (PString (js ''application/pdf''))\<rparr>\<rparr>\<rparr>"

definition image_message :: Message where
  "image_message =
     \<lparr>mid = 12, from_uid = 7, target = ToUser 2,
      detail = \<lparr>content_type = js ''vocechat/file'', content = js ''2024/cat.png'',
                properties = Some \<lparr>mentions = None,
                                   prop_content_type = Some (PString (js ''image/png''))\<rparr>\<rparr>\<rparr>"

definition broken_image :: Message where
  "broken_image =
     \<lparr>mid = 13, from_uid = 7, target = ToUser 2,
      detail = \<lparr>content_type = js ''vocechat/file'', content = [0xD800],
                properties = Some \<lparr>mentions = None,
                                   prop_content_type = Some (PString (js ''image/png''))\<rparr>\<rparr>\<rparr>"

text \<open>A network on which the backend answers \<open>Hi there.\<close> and every other request is
  answered with the same response, for one task and for every task of a batch.\<close>

definition helpful :: "nat \<Rightarrow> outcome" where
  "helpful n =
     Outcome 900
       (Inr \<lparr>status = 200,
             json_body = Inr (JObj [(js ''choices'',
               JArr [JObj [(js ''message'', JObj [(js ''content'', JStr (js '' Hi there. ''))])]])]),
             arrayBuffer_body = Inr [0x4D, 0x61, 0x6E]\<rparr>)"

definition all_helpful :: "nat \<Rightarrow> nat \<Rightarrow> outcome" where
  "all_helpful j = helpful"

text \<open>A webhook request carrying a message; a message sent to a group.\<close>

definition post :: "Message \<Rightarrow> http_request" where
  "post m = \<lparr>http_method = js ''POST'', http_json = Inr m\<rparr>"

definition group_message :: "nat \<Rightarrow> string \<Rightarrow> Message" where
  "group_message sender body =
     \<lparr>mid = 21, from_uid = sender, target = ToGroup 5,
      detail = \<lparr>content_type = js ''text/plain'', content = js body, properties = None\<rparr>\<rparr>"

text \<open>Two direct messages arrive while the first is being answered, then the batch of
  the first settles. Six direct messages arrive before anything settles: the first is
  being answered, the other five wait.\<close>

definition two_arrivals :: "action list" where
  "two_arrivals =
     [Webhook (post (text_message 1)), Webhook (post (text_message 2)),
      BatchSettled 0 all_offline]"

definition six_arrivals :: "action list" where
  "six_arrivals =
     [Webhook (post (text_message 0)), Webhook (post (text_message 1)),
      Webhook (post (text_message 2)), Webhook (post (text_message 3)),
      Webhook (post (text_message 4)), Webhook (post (text_message 5))]"

section \<open>Properties\<close>

subsection \<open>Resilient transport\<close>

declare fetchWithRetry_from.simps [simp del]

lemma fetchWithTimeout_eq:
  "fetchWithTimeout req 30000 w = (attempt w 0, snd (fetchWithTimeout req 30000 w))"
  by (simp add: fetchWithTimeout_def fetch_def attempt_def Let_def split: sum.splits)

lemma fetchWithTimeout_world:
  "trace (snd (fetchWithTimeout req t w)) = trace w @ [EvFetch req]"
  "fetches (snd (fetchWithTimeout req t w)) = Suc (fetches w)"
  "network (snd (fetchWithTimeout req t w)) = network w"
  by (simp_all add: fetchWithTimeout_def fetch_def Let_def split: sum.splits)

lemma delay_world:
  "trace (delay ms w) = trace w @ [EvDelay ms]"
  "fetches (delay ms w) = fetches w"
  "network (delay ms w) = network w"
  by (simp_all add: delay_def)

lemma attempt_shift:
  "network w' = network w \<Longrightarrow> fetches w' = Suc (fetches w) \<Longrightarrow> attempt w' j = attempt w (Suc j)"
  by (simp add: attempt_def)

lemma failed_run_Suc:
  "failed_run w (Suc n) =
     (if isl (attempt w 0) then Suc (length (takeWhile (\<lambda>j. isl (attempt w (Suc j))) [0..<n])) else 0)"
proof -
  have "[0..<Suc n] = 0 # map Suc [0..<n]"
    by (simp add: upt_conv_Cons map_Suc_upt del: upt_Suc)
  then show ?thesis
    by (simp add: failed_run_def takeWhile_map comp_def del: upt_Suc)
qed

lemma fetchWithRetry_from_run:
  "0 \<le> i \<Longrightarrow> 0 < n \<Longrightarrow>
   fst (fetchWithRetry_from i req (i + int n) w) = attempt w (attempts_made w n - 1) \<and>
   trace (snd (fetchWithRetry_from i req (i + int n) w)) =
     trace w @ backoff_trace req (nat i) (attempts_made w n) \<and>
   fetches (snd (fetchWithRetry_from i req (i + int n) w)) = fetches w + attempts_made w n \<and>
   network (snd (fetchWithRetry_from i req (i + int n) w)) = network w"
proof (induction n arbitrary: i w)
  case 0
  then show ?case by simp
next
  case (Suc n)
  obtain w1 where w1: "fetchWithTimeout req 30000 w = (attempt w 0, w1)"
    using fetchWithTimeout_eq by blast
  have w1_facts: "trace w1 = trace w @ [EvFetch req]" "fetches w1 = Suc (fetches w)"
    "network w1 = network w"
    using fetchWithTimeout_world [of req 30000 w] w1 by simp_all
  show ?case
  proof (cases "attempt w 0")
    case (Inr resp)
    then have "attempts_made w (Suc n) = 1"
      by (simp add: attempts_made_def failed_run_Suc)
    with Inr w1 w1_facts Suc.prems show ?thesis
      by (subst (1 2 3 4) fetchWithRetry_from.simps) simp
  next
    case (Inl err)
    show ?thesis
    proof (cases n)
      case 0
      then have "attempts_made w (Suc n) = 1"
        by (simp add: attempts_made_def)
      with 0 Inl w1 w1_facts Suc.prems show ?thesis
        by (subst (1 2 3 4) fetchWithRetry_from.simps) simp
    next
      case (Suc n')
      define w2 where "w2 = delay (1000 * 2 ^ nat i) w1"
      have w2_facts: "trace w2 = trace w @ [EvFetch req, EvDelay (1000 * 2 ^ nat i)]"
        "fetches w2 = Suc (fetches w)" "network w2 = network w"
        by (simp_all add: w2_def delay_world w1_facts)
      have shift: "attempt w2 j = attempt w (Suc j)" for j
        by (rule attempt_shift) (simp_all add: w2_facts)
      have "failed_run w2 n = length (takeWhile (\<lambda>j. isl (attempt w (Suc j))) [0..<n])"
        by (simp add: failed_run_def shift)
      then have "failed_run w (Suc n) = Suc (failed_run w2 n)"
        using Inl by (simp add: failed_run_Suc)
      then have made: "attempts_made w (Suc n) = Suc (attempts_made w2 n)"
        by (simp add: attempts_made_def)
      have pos: "0 < attempts_made w2 n"
        using Suc by (simp add: attempts_made_def)
      have unfold: "fetchWithRetry_from i req (i + int (Suc n)) w =
                    fetchWithRetry_from (i + 1) req (i + 1 + int n) w2"
        using Inl w1 Suc by (subst fetchWithRetry_from.simps) (simp add: w2_def add.commute add.left_commute)
      have IH: "fst (fetchWithRetry_from (i + 1) req (i + 1 + int n) w2) =
                  attempt w2 (attempts_made w2 n - 1) \<and>
                trace (snd (fetchWithRetry_from (i + 1) req (i + 1 + int n) w2)) =
                  trace w2 @ backoff_trace req (nat (i + 1)) (attempts_made w2 n) \<and>
                fetches (snd (fetchWithRetry_from (i + 1) req (i + 1 + int n) w2)) =
                  fetches w2 + attempts_made w2 n \<and>
                network (snd (fetchWithRetry_from (i + 1) req (i + 1 + int n) w2)) = network w2"
        using Suc.IH [of "i + 1" w2] Suc.prems Suc by simp
      obtain k where k: "attempts_made w2 n = Suc k"
        using pos by (cases "attempts_made w2 n") simp_all
      have nat_i: "nat (i + 1) = Suc (nat i)"
        using Suc.prems by simp
      show ?thesis
        unfolding unfold using IH by (simp add: made w2_facts shift k nat_i)
    qed
  qed
qed


lemma emitted_append: "trace w' = trace w @ es \<Longrightarrow> emitted w w' = es"
  by (simp add: emitted_def)

lemma fetchWithRetry_run:
  assumes "0 < m"
  shows "fst (fetchWithRetry req m w) = attempt w (attempts_made w (nat m) - 1) \<and>
         emitted w (snd (fetchWithRetry req m w)) = backoff_trace req 0 (attempts_made w (nat m)) \<and>
         fetches (snd (fetchWithRetry req m w)) = fetches w + attempts_made w (nat m) \<and>
         network (snd (fetchWithRetry req m w)) = network w"
proof -
  from assms have pos: "0 < nat m" by simp
  have eq: "fetchWithRetry_from 0 req (0 + int (nat m)) w = fetchWithRetry req m w"
    using assms by (simp add: fetchWithRetry_def)
  show ?thesis
    using fetchWithRetry_from_run [OF order_refl pos, of req w] unfolding eq
    by (simp add: emitted_append)
qed

lemma fetchWithRetry_default:
  "fst (fetchWithRetry req 3 w) = attempt w (attempts_made w 3 - 1)"
  "emitted w (snd (fetchWithRetry req 3 w)) = backoff_trace req 0 (attempts_made w 3)"
  "fetches (snd (fetchWithRetry req 3 w)) = fetches w + attempts_made w 3"
  "network (snd (fetchWithRetry req 3 w)) = network w"
  using fetchWithRetry_run [of 3 req w] by simp_all

lemma fetchWithRetry_none:
  "m \<le> 0 \<Longrightarrow> fetchWithRetry req m w = (Inl (Error ''Max retries reached''), w)"
  by (simp add: fetchWithRetry_def fetchWithRetry_from.simps)

lemma waits_backoff_trace:
  "waits a (backoff_trace req i k) =
     (if k = 0 then [] else a # map (\<lambda>j. 1000 * 2 ^ (i + j)) [0..<k - 1])"
proof (induction req i k arbitrary: a rule: backoff_trace.induct)
  case (3 req i k)
  have "[0..<Suc k] = 0 # map Suc [0..<k]"
    by (simp add: upt_conv_Cons map_Suc_upt del: upt_Suc)
  then show ?case
    using 3 [of "1000 * 2 ^ i"] by (simp add: comp_def del: upt_Suc)
qed simp_all

lemma fetch_count_backoff_trace: "fetch_count (backoff_trace req i k) = k"
  by (induction req i k rule: backoff_trace.induct) (simp_all add: fetch_count_def)

lemma attempts_made_le: "attempts_made w n \<le> n"
  by (simp add: attempts_made_def)

lemma attempts_made_pos: "0 < n \<Longrightarrow> 0 < attempts_made w n"
  by (simp add: attempts_made_def)

lemma failed_run_failed: "j < failed_run w n \<Longrightarrow> isl (attempt w j)"
proof -
  assume j: "j < failed_run w n"
  let ?xs = "takeWhile (\<lambda>j. isl (attempt w j)) [0..<n]"
  have len: "length ?xs \<le> n"
    using length_takeWhile_le [of "\<lambda>j. isl (attempt w j)" "[0..<n]"] by simp
  have "?xs ! j \<in> set ?xs"
    using j by (simp add: failed_run_def)
  then have "isl (attempt w (?xs ! j))"
    by (rule set_takeWhileD [THEN conjunct2])
  moreover have "?xs ! j = [0..<n] ! j"
    using j by (simp add: failed_run_def takeWhile_nth)
  moreover have "j < n"
    using j len by (simp add: failed_run_def)
  ultimately show ?thesis by simp
qed

lemma failed_run_all: "(\<forall>j<n. isl (attempt w j)) \<Longrightarrow> failed_run w n = n"
proof -
  assume "\<forall>j<n. isl (attempt w j)"
  then have "takeWhile (\<lambda>j. isl (attempt w j)) [0..<n] = [0..<n]"
    by (intro takeWhile_eq_all_conv [THEN iffD2]) simp
  then show ?thesis by (simp only: failed_run_def length_upt diff_zero)
qed

lemma failed_run_stop:
  "j < n \<Longrightarrow> \<forall>i<j. isl (attempt w i) \<Longrightarrow> \<not> isl (attempt w j) \<Longrightarrow> failed_run w n = j"
proof -
  assume j: "j < n" and before: "\<forall>i<j. isl (attempt w i)" and at: "\<not> isl (attempt w j)"
  have split: "[0..<n] = [0..<j] @ j # [Suc j..<n]"
    using j by (metis less_imp_le_nat upt_add_eq_append le_add_diff_inverse upt_conv_Cons
        less_eq_nat.simps(1))
  have "takeWhile (\<lambda>j. isl (attempt w j)) [0..<n] = [0..<j]"
    unfolding split using before at by (subst takeWhile_append2) auto
  then show ?thesis by (simp only: failed_run_def length_upt diff_zero)
qed

lemma fetchWithRetry_trace:
  "trace (snd (fetchWithRetry req m w)) = trace w @ emitted w (snd (fetchWithRetry req m w))"
proof (cases "0 < m")
  case True
  then have pos: "0 < nat m" by simp
  have eq: "fetchWithRetry_from 0 req (0 + int (nat m)) w = fetchWithRetry req m w"
    using True by (simp add: fetchWithRetry_def)
  show ?thesis
    using fetchWithRetry_from_run [OF order_refl pos, of req w] unfolding eq
    by (simp add: emitted_def)
next
  case False
  then show ?thesis by (simp add: fetchWithRetry_none emitted_def)
qed

lemma attempt_resolved:
  "network w (fetches w) = Outcome ms (Inr resp) \<Longrightarrow> ms < 30000 \<Longrightarrow> attempt w 0 = Inr resp"
  by (simp add: attempt_def)

lemma attempts_made_first: "\<not> isl (attempt w 0) \<Longrightarrow> 0 < n \<Longrightarrow> attempts_made w n = 1"
  by (cases n) (simp_all add: attempts_made_def failed_run_Suc)

lemma sendMessageToBot_fst:
  "fst (sendMessageToBot cfg url message w) =
     (case attempt w (attempts_made w 3 - 1) of
        Inl e \<Rightarrow> Inl e
      | Inr resp \<Rightarrow> (case json_body resp of Inl e \<Rightarrow> Inl e | Inr d \<Rightarrow> Inr ()))"
  using fetchWithRetry_default(1) [where req = "reply_request cfg url message" and w = w]
  by (cases "fetchWithRetry (reply_request cfg url message) 3 w")
     (simp add: sendMessageToBot_def split: sum.splits)

lemma log_world:
  "trace (log m w) = trace w @ [EvLog m]" "fetches (log m w) = fetches w"
  "network (log m w) = network w"
  by (simp_all add: log_def)

lemma sendMessageToBot_trace:
  "trace (snd (sendMessageToBot cfg url message w)) =
     trace w @ backoff_trace (reply_request cfg url message) 0 (attempts_made w 3) @
     [EvLog (if isl (fst (sendMessageToBot cfg url message w)) then js ''bot: send failed''
             else js ''bot: send successfully'')]"
proof -
  have "trace (snd (fetchWithRetry (reply_request cfg url message) 3 w)) =
          trace w @ backoff_trace (reply_request cfg url message) 0 (attempts_made w 3)"
    using fetchWithRetry_trace [of "reply_request cfg url message" 3 w]
      fetchWithRetry_default(2) [where req = "reply_request cfg url message" and w = w] by simp
  then show ?thesis
    by (cases "fetchWithRetry (reply_request cfg url message) 3 w")
       (simp add: sendMessageToBot_def log_world split: sum.splits)
qed

text \<open>
  Claim C3, amended. With the default \<open>maxRetries = 3\<close>, no time is slept before the
  first attempt, and the time slept before attempt \<open>j\<close> (counted from 0, \<open>j \<ge> 1\<close>) is
  \<open>1000 * 2 ^ (j - 1)\<close> milliseconds: 1000 before the second attempt and 2000 before the
  third. In particular a call whose first two attempts fail and whose third is
  answered returns that answer after exactly the two delays 1000 and 2000. (The claim
  gives the exponent as \<open>j\<close>; read with the attempts counted from 0 that is 2000 and
  4000, which is not what the loop sleeps.)
\<close>

theorem fetchWithRetry_backoff:
  "waits 0 (emitted w (snd (fetchWithRetry req 3 w))) =
     map (\<lambda>j. if j = 0 then 0 else 1000 * 2 ^ (j - 1)) [0..<attempts_made w 3] \<and>
   (isl (attempt w 0) \<and> isl (attempt w 1) \<and> attempt w 2 = Inr resp \<longrightarrow>
      fst (fetchWithRetry req 3 w) = Inr resp \<and>
      emitted w (snd (fetchWithRetry req 3 w)) =
        [EvFetch req, EvDelay 1000, EvFetch req, EvDelay 2000, EvFetch req])"
proof
  have pos: "0 < attempts_made w 3"
    by (simp add: attempts_made_pos)
  have "[0..<attempts_made w 3] = 0 # map Suc [0..<attempts_made w 3 - 1]"
    using pos by (cases "attempts_made w 3") (simp_all add: upt_conv_Cons map_Suc_upt del: upt_Suc)
  then show "waits 0 (emitted w (snd (fetchWithRetry req 3 w))) =
     map (\<lambda>j. if j = 0 then 0 else 1000 * 2 ^ (j - 1)) [0..<attempts_made w 3]"
    using fetchWithRetry_default(2) [where req = req and w = w] pos
    by (simp add: waits_backoff_trace comp_def del: upt_Suc)
next
  show "isl (attempt w 0) \<and> isl (attempt w 1) \<and> attempt w 2 = Inr resp \<longrightarrow>
      fst (fetchWithRetry req 3 w) = Inr resp \<and>
      emitted w (snd (fetchWithRetry req 3 w)) =
        [EvFetch req, EvDelay 1000, EvFetch req, EvDelay 2000, EvFetch req]"
  proof
    assume a: "isl (attempt w 0) \<and> isl (attempt w 1) \<and> attempt w 2 = Inr resp"
    then have "failed_run w 3 = 2"
      by (intro failed_run_stop) (auto simp: less_Suc_eq numeral_2_eq_2)
    then have "attempts_made w 3 = 3"
      by (simp add: attempts_made_def)
    then show "fst (fetchWithRetry req 3 w) = Inr resp \<and>
      emitted w (snd (fetchWithRetry req 3 w)) =
        [EvFetch req, EvDelay 1000, EvFetch req, EvDelay 2000, EvFetch req]"
      using fetchWithRetry_default(1,2) [where req = req and w = w] a
      by (simp add: numeral_3_eq_3 numeral_2_eq_2)
  qed
qed

text \<open>On the network \<open>recovering\<close> the call makes three attempts and sleeps 1000, then 2000.\<close>

theorem fetchWithRetry_backoff_witness:
  "waits 0 (emitted (fresh_world recovering) (snd (fetchWithRetry ping 3 (fresh_world recovering)))) =
     [0, 1000, 2000] \<and>
   fst (fetchWithRetry ping 3 (fresh_world recovering)) = Inr ok_response \<and>
   emitted (fresh_world recovering) (snd (fetchWithRetry ping 3 (fresh_world recovering))) =
     [EvFetch ping, EvDelay 1000, EvFetch ping, EvDelay 2000, EvFetch ping]"
  using fetchWithRetry_backoff [of "fresh_world recovering" ping ok_response]
  by (simp add: attempt_def fresh_world_def recovering_def waits_backoff_trace)

text \<open>
  Claim C3 as stated fails: on the network \<open>flaky\<close> a second attempt (attempt 1) is
  made, and the time slept before it is 1000 ms, not \<open>1000 * 2 ^ 1\<close>.
\<close>

theorem fetchWithRetry_backoff_counterexample:
  "attempts_made (fresh_world flaky) 3 = 2 \<and>
   waits 0 (emitted (fresh_world flaky) (snd (fetchWithRetry ping 3 (fresh_world flaky)))) ! 1 = 1000 \<and>
   waits 0 (emitted (fresh_world flaky) (snd (fetchWithRetry ping 3 (fresh_world flaky)))) ! 1
     \<noteq> 1000 * 2 ^ 1"
  by (simp add: attempts_made_def failed_run_def attempt_def emitted_def fetchWithRetry_def
      fetchWithRetry_from.simps fetchWithTimeout_def fetch_def fresh_world_def flaky_def delay_def
      Let_def upt_conv_Cons del: upt_Suc)

text \<open>
  Claim C4. A call makes at most \<open>maxRetries\<close> attempts, whatever the network does; and
  when all \<open>maxRetries\<close> attempts fail, the call fails with the error of the last of
  them, having made exactly \<open>maxRetries\<close> attempts. (There is a last attempt when
  \<open>maxRetries\<close> is at least 1, as in every call of the file; with none to make the call
  fails at line 45, see \<open>fetchWithRetry_none\<close>.)
\<close>

theorem fetchWithRetry_exhausted:
  "fetch_count (emitted w (snd (fetchWithRetry req maxRetries w))) \<le> nat maxRetries \<and>
   (0 < maxRetries \<and> (\<forall>j < nat maxRetries. isl (attempt w j)) \<longrightarrow>
      (\<exists>err. attempt w (nat maxRetries - 1) = Inl err \<and>
             fst (fetchWithRetry req maxRetries w) = Inl err) \<and>
      fetch_count (emitted w (snd (fetchWithRetry req maxRetries w))) = nat maxRetries)"
proof (cases "0 < maxRetries")
  case False
  then show ?thesis
    by (simp add: fetchWithRetry_none emitted_def fetch_count_def)
next
  case True
  note run = fetchWithRetry_run [OF True, of req w]
  have bound: "fetch_count (emitted w (snd (fetchWithRetry req maxRetries w))) \<le> nat maxRetries"
    by (simp add: run fetch_count_backoff_trace attempts_made_le)
  have "(\<exists>err. attempt w (nat maxRetries - 1) = Inl err \<and>
             fst (fetchWithRetry req maxRetries w) = Inl err) \<and>
      fetch_count (emitted w (snd (fetchWithRetry req maxRetries w))) = nat maxRetries"
    if all: "\<forall>j < nat maxRetries. isl (attempt w j)"
  proof -
    have made: "attempts_made w (nat maxRetries) = nat maxRetries"
      using all by (simp add: attempts_made_def failed_run_all)
    have "isl (attempt w (nat maxRetries - 1))"
      using all True by simp
    then obtain err where "attempt w (nat maxRetries - 1) = Inl err"
      by (cases "attempt w (nat maxRetries - 1)") simp_all
    then show ?thesis
      by (simp add: run made fetch_count_backoff_trace)
  qed
  with bound show ?thesis by blast
qed

text \<open>With nothing reachable, the default three attempts are made and the last error returned.\<close>

theorem fetchWithRetry_exhausted_witness:
  "fst (fetchWithRetry ping 3 (fresh_world offline)) = Inl TypeError \<and>
   fetch_count (emitted (fresh_world offline) (snd (fetchWithRetry ping 3 (fresh_world offline)))) = 3"
  using fetchWithRetry_exhausted [of "fresh_world offline" ping 3]
  by (simp add: attempt_def fresh_world_def offline_def)

lemma backoff_trace_nonempty: "backoff_trace req i (Suc k) \<noteq> []"
  by (cases k) simp_all

lemma last_backoff_trace: "last (backoff_trace req i (Suc k)) = EvFetch req"
  by (induction k arbitrary: i) (simp_all add: backoff_trace_nonempty)

lemma attempts_made_stop:
  "k < n \<Longrightarrow> \<forall>j<k. isl (attempt w j) \<Longrightarrow> \<not> isl (attempt w k) \<Longrightarrow> attempts_made w n = Suc k"
  by (simp add: attempts_made_def failed_run_stop)

text \<open>
  Claim C9. The first attempt whose fetch resolves within the timeout ends the call:
  its response is the result, whatever its status, and its fetch is the last event, so
  neither a delay nor another attempt follows. A further attempt is made only after an
  attempt whose fetch was rejected or aborted by the timeout. So \<open>sendMessageToBot\<close>,
  once a fetch has resolved, succeeds exactly when the body of that response parses as
  JSON.
\<close>

theorem resolved_response_returned:
  "(k < nat maxRetries \<and> (\<forall>j<k. isl (attempt w j)) \<and>
    network w (fetches w + k) = Outcome ms (Inr resp) \<and> ms < 30000 \<longrightarrow>
      fst (fetchWithRetry req maxRetries w) = Inr resp \<and>
      fetch_count (emitted w (snd (fetchWithRetry req maxRetries w))) = Suc k \<and>
      last (emitted w (snd (fetchWithRetry req maxRetries w))) = EvFetch req) \<and>
   (\<forall>j. Suc j < fetch_count (emitted w (snd (fetchWithRetry req maxRetries w))) \<longrightarrow>
      isl (result (network w (fetches w + j))) \<or> 30000 \<le> elapsed (network w (fetches w + j))) \<and>
   (k < 3 \<and> (\<forall>j<k. isl (attempt w j)) \<and>
    network w (fetches w + k) = Outcome ms (Inr resp) \<and> ms < 30000 \<longrightarrow>
      (fst (sendMessageToBot cfg url message w) = Inr ()) = (\<not> isl (json_body resp)))"
proof (intro conjI impI allI)
  assume a: "k < nat maxRetries \<and> (\<forall>j<k. isl (attempt w j)) \<and>
    network w (fetches w + k) = Outcome ms (Inr resp) \<and> ms < 30000"
  then have at_k: "attempt w k = Inr resp"
    by (simp add: attempt_def)
  with a have made: "attempts_made w (nat maxRetries) = Suc k"
    by (intro attempts_made_stop) simp_all
  from a have pos: "0 < maxRetries" by (cases "0 < maxRetries") simp_all
  note run = fetchWithRetry_run [OF pos, of req w]
  show "fst (fetchWithRetry req maxRetries w) = Inr resp"
    using run by (simp add: made at_k)
  show "fetch_count (emitted w (snd (fetchWithRetry req maxRetries w))) = Suc k"
    using run by (simp add: made fetch_count_backoff_trace)
  show "last (emitted w (snd (fetchWithRetry req maxRetries w))) = EvFetch req"
    using run by (simp add: made last_backoff_trace)
next
  fix j
  assume j: "Suc j < fetch_count (emitted w (snd (fetchWithRetry req maxRetries w)))"
  have pos: "0 < maxRetries"
  proof (rule ccontr)
    assume "\<not> 0 < maxRetries"
    then have "fetch_count (emitted w (snd (fetchWithRetry req maxRetries w))) = 0"
      by (simp add: fetchWithRetry_none emitted_def fetch_count_def)
    with j show False by simp
  qed
  have "Suc j < attempts_made w (nat maxRetries)"
    using j fetchWithRetry_run [OF pos, of req w] by (simp add: fetch_count_backoff_trace)
  then have "j < failed_run w (nat maxRetries)"
    by (simp add: attempts_made_def)
  then have "isl (attempt w j)"
    by (rule failed_run_failed)
  then show "isl (result (network w (fetches w + j))) \<or> 30000 \<le> elapsed (network w (fetches w + j))"
    by (simp add: attempt_def Let_def split: if_splits)
next
  assume a: "k < 3 \<and> (\<forall>j<k. isl (attempt w j)) \<and>
    network w (fetches w + k) = Outcome ms (Inr resp) \<and> ms < 30000"
  then have at_k: "attempt w k = Inr resp"
    by (simp add: attempt_def)
  with a have made: "attempts_made w 3 = Suc k"
    by (intro attempts_made_stop) simp_all
  show "(fst (sendMessageToBot cfg url message w) = Inr ()) = (\<not> isl (json_body resp))"
    by (simp add: sendMessageToBot_fst made at_k split: sum.splits)
qed

text \<open>A first request that is aborted is tried again; the response of status 500 that
  follows is returned at once and counts as sent.\<close>

theorem resolved_response_returned_witness:
  "fst (fetchWithRetry ping 3 (fresh_world late_error)) = Inr error_response \<and>
   fetch_count (emitted (fresh_world late_error) (snd (fetchWithRetry ping 3 (fresh_world late_error)))) = 2 \<and>
   fst (sendMessageToBot sample_config (js ''https://chat.example.org/api/bot/reply/7'')
          (js ''hello'') (fresh_world late_error)) = Inr ()"
  using resolved_response_returned
    [of 1 3 "fresh_world late_error" 50 error_response ping sample_config
        "js ''https://chat.example.org/api/bot/reply/7''" "js ''hello''"]
  by (simp add: fresh_world_def late_error_def error_response_def attempt_def)

subsection \<open>Response generator\<close>

lemma not_send_line [simp]:
  "\<not> send_line (EvFetch r)" "\<not> send_line (EvDelay ms)" "\<not> send_line (EvError x)"
  "\<not> send_line (EvLog (js ''AI API call'' @ x))"
  "\<not> send_line (EvLog (js ''Error calling OpenAI API''))"
  "\<not> send_line (EvLog (js ''Error fetching or converting image''))"
  "\<not> send_line (EvLog (js ''Error processing message''))"
  "\<not> send_line (EvLog (js ''Error sending error message to user''))"
  by (simp_all add: send_line_def js_def)

lemma quiet_backoff_trace: "e \<in> set (backoff_trace req i k) \<Longrightarrow> \<not> send_line e"
  by (induction req i k rule: backoff_trace.induct) auto

lemma fetched_backoff_trace: "fetched (backoff_trace req i k) = replicate k req"
  by (induction req i k rule: backoff_trace.induct) (simp_all add: fetched_def)

lemma fetched_append: "fetched (xs @ ys) = fetched xs @ fetched ys"
  by (simp add: fetched_def)

lemma fetched_Nil: "fetched [] = []"
  by (simp add: fetched_def)

lemma measureTime_fst: "fst (measureTime name fn w) = fst (fn w)"
  by (cases "fn w") (simp add: measureTime_def split: sum.splits)

lemma measureTime_world:
  "fetches (snd (measureTime name fn w)) = fetches (snd (fn w))"
  "network (snd (measureTime name fn w)) = network (snd (fn w))"
  "trace (snd (measureTime name fn w)) =
     trace (snd (fn w)) @
     (if isl (fst (fn w)) then []
      else [EvLog (name @ js '' took '' @ decimal (now (snd (fn w)) - now w) @ js ''ms'')])"
  by (cases "fn w"; simp add: measureTime_def log_def split: sum.splits)+

lemma complete_fst: "fst (complete cfg requestBody w) = backend_reply w"
proof -
  let ?f = "fetchWithRetry (completion_request cfg requestBody) 3"
  have "fst (measureTime (js ''AI API call'') ?f w) = attempt w (attempts_made w 3 - 1)"
    by (simp add: measureTime_fst fetchWithRetry_default)
  then show ?thesis
    by (cases "measureTime (js ''AI API call'') ?f w")
       (simp add: complete_def backend_reply_def split: sum.splits)
qed

lemma complete_trace:
  "\<exists>es. trace (snd (complete cfg requestBody w)) =
          trace w @ backoff_trace (completion_request cfg requestBody) 0 (attempts_made w 3) @ es \<and>
        fetched es = [] \<and> (\<forall>e\<in>set es. \<not> send_line e)"
proof -
  let ?f = "fetchWithRetry (completion_request cfg requestBody) 3"
  have tr: "trace (snd (?f w)) =
              trace w @ backoff_trace (completion_request cfg requestBody) 0 (attempts_made w 3)"
    using fetchWithRetry_trace [of "completion_request cfg requestBody" 3 w]
    by (simp add: fetchWithRetry_default)
  have snd_eq: "snd (complete cfg requestBody w) = snd (measureTime (js ''AI API call'') ?f w)"
    by (cases "measureTime (js ''AI API call'') ?f w")
       (simp add: complete_def split: sum.splits)
  show ?thesis
    unfolding snd_eq by (simp add: measureTime_world tr fetched_def)
qed


lemma attempt_cong:
  "network w1 = network w2 \<Longrightarrow> fetches w1 = fetches w2 \<Longrightarrow> attempt w1 = attempt w2"
  by (rule ext) (simp add: attempt_def)

lemma backend_reply_cong:
  "network w1 = network w2 \<Longrightarrow> fetches w1 = fetches w2 \<Longrightarrow> backend_reply w1 = backend_reply w2"
  using attempt_cong [of w1 w2]
  by (simp add: backend_reply_def attempts_made_def failed_run_def)

lemma attempts_made_cong:
  "network w1 = network w2 \<Longrightarrow> fetches w1 = fetches w2 \<Longrightarrow> attempts_made w1 = attempts_made w2"
  using attempt_cong [of w1 w2]
  by (rule_tac ext) (simp add: attempts_made_def failed_run_def)

lemma getImageBase64_run:
  "fst (getImageBase64 imageUrl contentType w) =
     (case result (network w (fetches w)) of
        Inl e \<Rightarrow> Inl e
      | Inr resp \<Rightarrow>
          (case arrayBuffer_body resp of
             Inl e \<Rightarrow> Inl e
           | Inr arrayBuffer \<Rightarrow>
               Inr (js ''data:'' @ contentType @ js '';base64,'' @ base64 arrayBuffer)))"
  "trace (snd (getImageBase64 imageUrl contentType w)) = trace w @ [EvFetch (image_request imageUrl)]"
  "fetches (snd (getImageBase64 imageUrl contentType w)) = Suc (fetches w)"
  "network (snd (getImageBase64 imageUrl contentType w)) = network w"
  by (simp_all add: getImageBase64_def fetch_def Let_def split: sum.splits)

lemma getImageBase64_failed:
  "isl (fst (getImageBase64 imageUrl contentType w)) = image_failed w"
  by (simp add: getImageBase64_run image_failed_def split: sum.splits)

lemma prepare_text:
  "\<not> isImageMessage m \<Longrightarrow>
   prepare cfg m w =
     (Inr (RequestBody (text_requestBody (TEXT_MODEL cfg) (processMessageContent (content (detail m))))), w)"
  by (simp add: prepare_def)

lemma prepare_unencodable:
  "isImageMessage m \<Longrightarrow> encodeURIComponent (content (detail m)) = Inl e \<Longrightarrow>
   prepare cfg m w = (Inl e, w)"
  by (simp add: prepare_def)

lemma processMessage_text:
  assumes "\<not> isImageMessage m"
  shows "fst (processMessage cfg m w) = Inr (case backend_reply w of Inl e \<Rightarrow> TEXT_APOLOGY | Inr r \<Rightarrow> r)"
proof -
  let ?body = "text_requestBody (TEXT_MODEL cfg) (processMessageContent (content (detail m)))"
  have "fst (complete cfg ?body w) = backend_reply w"
    by (rule complete_fst)
  then show ?thesis
    using assms
    by (cases "complete cfg ?body w") (simp add: processMessage_def prepare_text split: sum.splits)
qed

lemma processMessage_unencodable:
  "isImageMessage m \<Longrightarrow> encodeURIComponent (content (detail m)) = Inl e \<Longrightarrow>
   processMessage cfg m w = (Inl e, w)"
  by (simp add: processMessage_def prepare_unencodable)

lemma processMessage_image:
  assumes img: "isImageMessage m" and enc: "encodeURIComponent (content (detail m)) = Inr encoded"
  shows "fst (processMessage cfg m w) =
           Inr (if image_failed w then IMAGE_APOLOGY
                else case backend_reply (w\<lparr>fetches := Suc (fetches w)\<rparr>) of
                       Inl e \<Rightarrow> IMAGE_APOLOGY | Inr r \<Rightarrow> r)"
proof -
  obtain t where t: "(case properties (detail m) of
                          Some p \<Rightarrow> (case prop_content_type p of Some (PString t) \<Rightarrow> t | _ \<Rightarrow> [])
                        | None \<Rightarrow> []) = t"
    by simp
  obtain r w1 where g: "getImageBase64 (VOCECHAT_ORIGIN cfg @ js ''/api/resource/file?file_path='' @ encoded) t w = (r, w1)"
    by (cases "getImageBase64 (VOCECHAT_ORIGIN cfg @ js ''/api/resource/file?file_path='' @ encoded) t w")
  have failed: "isl r = image_failed w"
    using getImageBase64_failed [of "VOCECHAT_ORIGIN cfg @ js ''/api/resource/file?file_path='' @ encoded" t w] g
    by simp
  have w1: "network w1 = network w" "fetches w1 = Suc (fetches w)"
    using getImageBase64_run(3,4) [of "VOCECHAT_ORIGIN cfg @ js ''/api/resource/file?file_path='' @ encoded" t w] g
    by simp_all
  show ?thesis
  proof (cases r)
    case (Inl e)
    with failed img enc g t show ?thesis
      by (simp add: processMessage_def prepare_def Let_def)
  next
    case (Inr imageBase64)
    let ?body = "image_requestBody (IMAGE_MODEL cfg) imageBase64"
    have "backend_reply w1 = backend_reply (w\<lparr>fetches := Suc (fetches w)\<rparr>)"
      by (rule backend_reply_cong) (simp_all add: w1)
    then have "fst (complete cfg ?body w1) = backend_reply (w\<lparr>fetches := Suc (fetches w)\<rparr>)"
      by (simp add: complete_fst)
    with Inr failed img enc g t show ?thesis
      by (cases "complete cfg ?body w1")
         (simp add: processMessage_def prepare_def Let_def split: sum.splits)
  qed
qed


lemma send_calls_append: "send_calls (xs @ ys) = send_calls xs + send_calls ys"
  by (simp add: send_calls_def)

lemma quiet_send_calls: "(\<forall>e\<in>set es. \<not> send_line e) \<Longrightarrow> send_calls es = 0"
  by (simp add: send_calls_def)

lemma dispatches_backoff_trace:
  "0 < k \<Longrightarrow> dispatches cur (backoff_trace req i k @ rest) = dispatches (Some req) rest"
  by (induction req i k arbitrary: cur rule: backoff_trace.induct) simp_all

lemma dispatches_quiet:
  "(\<forall>e\<in>set es. \<not> send_line e) \<Longrightarrow> 0 < k \<Longrightarrow>
   dispatches cur (es @ backoff_trace req i k @ rest) = dispatches (Some req) rest"
proof (induction es arbitrary: cur)
  case Nil
  then show ?case by (simp add: dispatches_backoff_trace)
next
  case (Cons e es)
  then show ?case
    by (cases e) (auto simp: send_line_def)
qed

lemma dispatches_quiet_end: "(\<forall>e\<in>set es. \<not> send_line e) \<Longrightarrow> dispatches cur es = []"
proof (induction es arbitrary: cur)
  case Nil
  then show ?case by simp
next
  case (Cons e es)
  then show ?case
    by (cases e) (auto simp: send_line_def)
qed

lemma dispatches_send_line:
  "dispatches cur (EvLog (if failed then js ''bot: send failed'' else js ''bot: send successfully'') # rest) =
     (cur, \<not> failed) # dispatches cur rest"
  by (simp add: js_def)

lemma send_line_send:
  "send_line (EvLog (if failed then js ''bot: send failed'' else js ''bot: send successfully''))"
  by (simp add: send_line_def)

lemma processMessage_trace_text:
  assumes "\<not> isImageMessage m"
  shows "\<exists>es. trace (snd (processMessage cfg m w)) =
               trace w @
               backoff_trace (completion_request cfg
                 (text_requestBody (TEXT_MODEL cfg) (processMessageContent (content (detail m)))))
                 0 (attempts_made w 3) @ es \<and>
             fetched es = [] \<and> (\<forall>e\<in>set es. \<not> send_line e)"
proof -
  let ?body = "text_requestBody (TEXT_MODEL cfg) (processMessageContent (content (detail m)))"
  obtain es where es: "trace (snd (complete cfg ?body w)) =
          trace w @ backoff_trace (completion_request cfg ?body) 0 (attempts_made w 3) @ es"
      "fetched es = []" "\<forall>e\<in>set es. \<not> send_line e"
    using complete_trace [of cfg ?body w] by blast
  show ?thesis
  proof (cases "complete cfg ?body w")
    case (Pair r w2)
    show ?thesis
    proof (cases r)
      case (Inr reply)
      with Pair assms es show ?thesis
        by (simp add: processMessage_def prepare_text)
    next
      case (Inl e)
      have "trace (snd (processMessage cfg m w)) =
              trace w @ backoff_trace (completion_request cfg ?body) 0 (attempts_made w 3) @
              (es @ [EvLog (js ''Error calling OpenAI API''), EvError (js ''Full error object:'')])"
        using Inl Pair assms es(1)
        by (simp add: processMessage_def prepare_text log_def console_error_def)
      moreover have "fetched (es @ [EvLog (js ''Error calling OpenAI API''), EvError (js ''Full error object:'')]) = []"
        using es(2) by (simp add: fetched_def)
      moreover have "\<forall>e\<in>set (es @ [EvLog (js ''Error calling OpenAI API''), EvError (js ''Full error object:'')]). \<not> send_line e"
        using es(3) by auto
      ultimately show ?thesis by blast
    qed
  qed
qed


lemma processMessage_trace_image:
  assumes img: "isImageMessage m" and enc: "encodeURIComponent (content (detail m)) = Inr encoded"
  shows "\<exists>es. trace (snd (processMessage cfg m w)) =
               trace w @
               EvFetch (image_request (VOCECHAT_ORIGIN cfg @ js ''/api/resource/file?file_path='' @ encoded)) # es \<and>
             (\<forall>r\<in>set (fetched es). \<exists>d. r = completion_request cfg (image_requestBody (IMAGE_MODEL cfg) d)) \<and>
             (\<forall>e\<in>set es. \<not> send_line e)"
proof -
  let ?url = "VOCECHAT_ORIGIN cfg @ js ''/api/resource/file?file_path='' @ encoded"
  obtain t where t: "(case properties (detail m) of
                          Some p \<Rightarrow> (case prop_content_type p of Some (PString t) \<Rightarrow> t | _ \<Rightarrow> [])
                        | None \<Rightarrow> []) = t"
    by simp
  obtain r w1 where g: "getImageBase64 ?url t w = (r, w1)"
    by (cases "getImageBase64 ?url t w")
  have w1: "trace w1 = trace w @ [EvFetch (image_request ?url)]"
    using getImageBase64_run(2) [of ?url t w] g by simp
  show ?thesis
  proof (cases r)
    case (Inl e)
    have "trace (snd (processMessage cfg m w)) =
            trace w @ EvFetch (image_request ?url) # [EvLog (js ''Error fetching or converting image'')]"
      using Inl img enc g t w1 by (simp add: processMessage_def prepare_def Let_def log_def)
    moreover have "fetched [EvLog (js ''Error fetching or converting image'')] = []"
      by (simp add: fetched_def)
    ultimately show ?thesis
      by (intro exI [of _ "[EvLog (js ''Error fetching or converting image'')]"]) simp
  next
    case (Inr imageBase64)
    let ?body = "image_requestBody (IMAGE_MODEL cfg) imageBase64"
    obtain es where es: "trace (snd (complete cfg ?body w1)) =
          trace w1 @ backoff_trace (completion_request cfg ?body) 0 (attempts_made w1 3) @ es"
      "fetched es = []" "\<forall>e\<in>set es. \<not> send_line e"
      using complete_trace [of cfg ?body w1] by blast
    let ?tail = "[EvLog (js ''Error calling OpenAI API''), EvError (js ''Full error object:'')]"
    have tail: "fetched ?tail = []" "\<forall>e\<in>set ?tail. \<not> send_line e"
      by (simp_all add: fetched_def)
    obtain r2 w2 where c: "complete cfg ?body w1 = (r2, w2)"
      by (cases "complete cfg ?body w1")
    have "\<exists>es'. trace (snd (processMessage cfg m w)) =
            trace w @ EvFetch (image_request ?url) #
              (backoff_trace (completion_request cfg ?body) 0 (attempts_made w1 3) @ es @ es') \<and>
            (es' = [] \<or> es' = ?tail)"
      using Inr img enc g t w1 es(1) c
      by (cases r2) (simp_all add: processMessage_def prepare_def Let_def log_def console_error_def)
    then obtain es' where es':
      "trace (snd (processMessage cfg m w)) =
            trace w @ EvFetch (image_request ?url) #
              (backoff_trace (completion_request cfg ?body) 0 (attempts_made w1 3) @ es @ es')"
      "es' = [] \<or> es' = ?tail"
      by blast
    have f: "fetched (backoff_trace (completion_request cfg ?body) 0 (attempts_made w1 3) @ es @ es') =
               replicate (attempts_made w1 3) (completion_request cfg ?body)"
      using es(2) es'(2) tail(1) by (auto simp: fetched_append fetched_backoff_trace fetched_Nil)
    have q: "\<forall>e\<in>set (backoff_trace (completion_request cfg ?body) 0 (attempts_made w1 3) @ es @ es'). \<not> send_line e"
      using es(3) es'(2) tail(2) quiet_backoff_trace by auto
    show ?thesis
      using es'(1) f q
      by (intro exI [of _ "backoff_trace (completion_request cfg ?body) 0 (attempts_made w1 3) @ es @ es'"])
         auto
  qed
qed

lemma processMessage_quiet:
  "\<exists>es. trace (snd (processMessage cfg m w)) = trace w @ es \<and> (\<forall>e\<in>set es. \<not> send_line e)"
proof (cases "isImageMessage m")
  case False
  then obtain es where "trace (snd (processMessage cfg m w)) =
               trace w @
               backoff_trace (completion_request cfg
                 (text_requestBody (TEXT_MODEL cfg) (processMessageContent (content (detail m)))))
                 0 (attempts_made w 3) @ es" "\<forall>e\<in>set es. \<not> send_line e"
    using processMessage_trace_text [of m cfg w] by blast
  then show ?thesis
    using quiet_backoff_trace by (intro exI [of _ "backoff_trace (completion_request cfg
                 (text_requestBody (TEXT_MODEL cfg) (processMessageContent (content (detail m)))))
                 0 (attempts_made w 3) @ es"]) auto
next
  case True
  show ?thesis
  proof (cases "encodeURIComponent (content (detail m))")
    case (Inl e)
    with True show ?thesis
      by (simp add: processMessage_unencodable)
  next
    case (Inr encoded)
    then obtain es where "trace (snd (processMessage cfg m w)) =
               trace w @
               EvFetch (image_request (VOCECHAT_ORIGIN cfg @ js ''/api/resource/file?file_path='' @ encoded)) # es"
         "\<forall>e\<in>set es. \<not> send_line e"
      using processMessage_trace_image [OF True Inr, of cfg w] by blast
    then show ?thesis
      by (intro exI [of _ "EvFetch (image_request (VOCECHAT_ORIGIN cfg @ js ''/api/resource/file?file_path='' @ encoded)) # es"]) simp
  qed
qed

lemma user_prompt_text:
  "user_prompt (completion_request cfg (text_requestBody model p)) = Some (JStr p)"
  by (simp add: user_prompt_def completion_request_def text_requestBody_def js_def)

text \<open>
  Claim C5, amended. For every message that is not an image message, or whose file path
  is well-formed UTF-16 (so that \<open>encodeURIComponent\<close> accepts it), \<open>processMessage\<close>
  returns a string and throws nothing: the reply of the backend, or, when the download
  of the image fails, the call to the backend fails or its response is not of the
  expected form, the apology of the message's modality (the image apology for an image
  message, the text apology otherwise; the two differ).
\<close>

theorem processMessage_total:
  "(isImageMessage m \<longrightarrow> \<not> isl (encodeURIComponent (content (detail m)))) \<Longrightarrow>
   fst (processMessage cfg m w) =
     Inr (if isImageMessage m then
            (if image_failed w then IMAGE_APOLOGY
             else case backend_reply (w\<lparr>fetches := Suc (fetches w)\<rparr>) of
                    Inl e \<Rightarrow> IMAGE_APOLOGY | Inr r \<Rightarrow> r)
          else (case backend_reply w of Inl e \<Rightarrow> TEXT_APOLOGY | Inr r \<Rightarrow> r)) \<and>
   IMAGE_APOLOGY \<noteq> TEXT_APOLOGY"
proof (cases "isImageMessage m")
  case False
  then show ?thesis
    by (simp add: processMessage_text IMAGE_APOLOGY_def TEXT_APOLOGY_def)
next
  case True
  assume "isImageMessage m \<longrightarrow> \<not> isl (encodeURIComponent (content (detail m)))"
  with True obtain encoded where "encodeURIComponent (content (detail m)) = Inr encoded"
    by (cases "encodeURIComponent (content (detail m))") simp_all
  with True show ?thesis
    by (simp add: processMessage_image IMAGE_APOLOGY_def TEXT_APOLOGY_def)
qed

text \<open>With nothing reachable a text message gets the text apology and an image message
  the image apology.\<close>

theorem processMessage_total_witness:
  "fst (processMessage sample_config (text_message 1) (fresh_world offline)) = Inr TEXT_APOLOGY \<and>
   fst (processMessage sample_config image_message (fresh_world offline)) = Inr IMAGE_APOLOGY"
  using processMessage_total [of "text_message 1" sample_config "fresh_world offline"]
    processMessage_total [of image_message sample_config "fresh_world offline"]
  by (simp add: isImageMessage_def text_message_def image_message_def js_def startsWith_def
      backend_reply_def attempt_def fresh_world_def offline_def image_failed_def
      encodeURIComponent_def isLowSurrogate_def isHighSurrogate_def)

text \<open>
  Claim C5 as stated fails: for an image message whose file path is a lone surrogate,
  \<open>encodeURIComponent\<close> (line 97, outside both \<open>try\<close> blocks) raises \<open>URIError\<close>, and
  \<open>processMessage\<close> rejects with it.
\<close>

theorem processMessage_total_counterexample:
  "isImageMessage broken_image \<and>
   fst (processMessage sample_config broken_image (fresh_world offline)) = Inl URIError"
  by (simp add: isImageMessage_def broken_image_def js_def startsWith_def processMessage_def
      prepare_def encodeURIComponent_def isLowSurrogate_def isHighSurrogate_def)

lemma complete_network: "complete cfg body w = (r, w') \<Longrightarrow> network w' = network w"
proof -
  assume c: "complete cfg body w = (r, w')"
  let ?f = "fetchWithRetry (completion_request cfg body) 3"
  have "snd (complete cfg body w) = snd (measureTime (js ''AI API call'') ?f w)"
    by (cases "measureTime (js ''AI API call'') ?f w") (simp add: complete_def split: sum.splits)
  then have "network (snd (complete cfg body w)) = network w"
    by (simp add: measureTime_world fetchWithRetry_default)
  with c show ?thesis by simp
qed

lemma prepare_network: "prepare cfg m w = (r, w') \<Longrightarrow> network w' = network w"
proof -
  assume p: "prepare cfg m w = (r, w')"
  have "network (snd (prepare cfg m w)) = network w"
  proof (cases "isImageMessage m")
    case False
    then show ?thesis by (simp add: prepare_text)
  next
    case True
    show ?thesis
    proof (cases "encodeURIComponent (content (detail m))")
      case (Inl e)
      with True show ?thesis by (simp add: prepare_unencodable)
    next
      case (Inr encoded)
      obtain t where t: "(case properties (detail m) of
                          Some p \<Rightarrow> (case prop_content_type p of Some (PString t) \<Rightarrow> t | _ \<Rightarrow> [])
                        | None \<Rightarrow> []) = t"
        by simp
      let ?g = "getImageBase64 (VOCECHAT_ORIGIN cfg @ js ''/api/resource/file?file_path='' @ encoded) t w"
      have "network (snd ?g) = network w"
        by (rule getImageBase64_run)
      then show ?thesis
        using True Inr t by (cases ?g) (auto simp: prepare_def Let_def log_world split: sum.splits)
    qed
  qed
  with p show ?thesis by simp
qed

lemma processMessage_network: "network (snd (processMessage cfg m w)) = network w"
  by (auto simp: processMessage_def Let_def log_world console_error_def
      split: prod.splits sum.splits prepared.splits
      dest!: prepare_network complete_network)

lemma js_append: "js a @ js b = js (a @ b)"
  by (simp add: js_def)

lemma sample_models:
  "TEXT_MODEL sample_config = js ''gpt-3.5-turbo''"
  "VOCECHAT_ORIGIN sample_config = js ''https://chat.example.org''"
  by (simp_all add: TEXT_MODEL_def sample_config_def or_default_def)

lemma sample_kinds: "\<not> isImageMessage pdf_message" "isImageMessage image_message"
  "\<not> isImageMessage (text_message n)" "isImageMessage broken_image"
  by (simp_all add: isImageMessage_def pdf_message_def image_message_def text_message_def
      broken_image_def js_def startsWith_def)

lemma sample_prompt:
  "trim (strip_mentions (content (detail pdf_message))) = js ''2024/report.pdf''"
proof -
  have "trim (strip_mentions (js '' @12 2024/report.pdf '')) = js ''2024/report.pdf''"
    by code_simp
  then show ?thesis by (simp add: pdf_message_def)
qed

lemma sample_path:
  "encodeURIComponent (content (detail image_message)) = Inr (js ''2024%2Fcat.png'')"
proof -
  have "encodeURIComponent (js ''2024/cat.png'') = Inr (js ''2024%2Fcat.png'')"
    by code_simp
  then show ?thesis by (simp add: image_message_def)
qed

lemma helpful_first_try: "attempts_made (fresh_world helpful) 3 = 1"
  by (simp add: attempts_made_def failed_run_def attempt_def fresh_world_def helpful_def
      upt_conv_Cons del: upt_Suc)

text \<open>
  Claim C10. A message is an image message exactly when its content type is
  \<open>vocechat/file\<close> and its properties carry a string \<open>content_type\<close> that starts with
  \<open>image/\<close>. For any other message, a file that is no image included, every request
  \<open>processMessage\<close> makes is the completion request of the text branch, at least one
  is made, and its user prompt is the content with the \<open>@\<close>-digit tokens stripped and
  the white space trimmed. For an image message the first request is the download of
  the image and every later one carries the image request body; if the file path
  cannot be encoded no request is made at all.
\<close>

theorem image_branch_selection:
  "(isImageMessage m \<longleftrightarrow>
      content_type (detail m) = js ''vocechat/file'' \<and>
      (\<exists>p t. properties (detail m) = Some p \<and> prop_content_type p = Some (PString t) \<and>
             prefix (js ''image/'') t)) \<and>
   (\<not> isImageMessage m \<longrightarrow>
      0 < attempts_made w 3 \<and>
      fetched (emitted w (snd (processMessage cfg m w))) =
        replicate (attempts_made w 3)
          (completion_request cfg
             (text_requestBody (TEXT_MODEL cfg) (trim (strip_mentions (content (detail m)))))) \<and>
      (\<forall>r\<in>set (fetched (emitted w (snd (processMessage cfg m w)))).
         user_prompt r = Some (JStr (trim (strip_mentions (content (detail m))))))) \<and>
   (isImageMessage m \<longrightarrow>
      (case encodeURIComponent (content (detail m)) of
         Inl e \<Rightarrow> fetched (emitted w (snd (processMessage cfg m w))) = []
       | Inr encoded \<Rightarrow>
           \<exists>rest. fetched (emitted w (snd (processMessage cfg m w))) =
                    image_request (VOCECHAT_ORIGIN cfg @ js ''/api/resource/file?file_path='' @ encoded)
                    # rest \<and>
                  (\<forall>r\<in>set rest. \<exists>d. r = completion_request cfg (image_requestBody (IMAGE_MODEL cfg) d))))"
proof (intro conjI impI)
  show "isImageMessage m \<longleftrightarrow>
      content_type (detail m) = js ''vocechat/file'' \<and>
      (\<exists>p t. properties (detail m) = Some p \<and> prop_content_type p = Some (PString t) \<and>
             prefix (js ''image/'') t)"
    by (auto simp: isImageMessage_def startsWith_def split: option.splits prop_value.splits)
next
  assume "\<not> isImageMessage m"
  show "0 < attempts_made w 3"
    by (simp add: attempts_made_pos)
next
  assume plain: "\<not> isImageMessage m"
  let ?req = "completion_request cfg
             (text_requestBody (TEXT_MODEL cfg) (trim (strip_mentions (content (detail m)))))"
  obtain es where es: "trace (snd (processMessage cfg m w)) =
       trace w @ backoff_trace ?req 0 (attempts_made w 3) @ es" "fetched es = []"
    using processMessage_trace_text [OF plain, of cfg w] by (auto simp: processMessageContent_def)
  then have "emitted w (snd (processMessage cfg m w)) = backoff_trace ?req 0 (attempts_made w 3) @ es"
    by (simp add: emitted_append)
  then show f: "fetched (emitted w (snd (processMessage cfg m w))) = replicate (attempts_made w 3) ?req"
    using es(2) by (simp add: fetched_append fetched_backoff_trace)
  show "\<forall>r\<in>set (fetched (emitted w (snd (processMessage cfg m w)))).
         user_prompt r = Some (JStr (trim (strip_mentions (content (detail m)))))"
    unfolding f by (simp add: user_prompt_text)
next
  assume img: "isImageMessage m"
  show "case encodeURIComponent (content (detail m)) of
         Inl e \<Rightarrow> fetched (emitted w (snd (processMessage cfg m w))) = []
       | Inr encoded \<Rightarrow>
           \<exists>rest. fetched (emitted w (snd (processMessage cfg m w))) =
                    image_request (VOCECHAT_ORIGIN cfg @ js ''/api/resource/file?file_path='' @ encoded)
                    # rest \<and>
                  (\<forall>r\<in>set rest. \<exists>d. r = completion_request cfg (image_requestBody (IMAGE_MODEL cfg) d))"
  proof (cases "encodeURIComponent (content (detail m))")
    case (Inl e)
    with img show ?thesis
      by (simp add: processMessage_unencodable emitted_def fetched_Nil)
  next
    case (Inr encoded)
    let ?get = "image_request (VOCECHAT_ORIGIN cfg @ js ''/api/resource/file?file_path='' @ encoded)"
    obtain es where es: "trace (snd (processMessage cfg m w)) = trace w @ EvFetch ?get # es"
      "\<forall>r\<in>set (fetched es). \<exists>d. r = completion_request cfg (image_requestBody (IMAGE_MODEL cfg) d)"
      using processMessage_trace_image [OF img Inr, of cfg w] by blast
    then have "emitted w (snd (processMessage cfg m w)) = EvFetch ?get # es"
      by (simp add: emitted_append)
    then have "fetched (emitted w (snd (processMessage cfg m w))) = ?get # fetched es"
      by (simp add: fetched_def)
    with es(2) Inr show ?thesis by simp
  qed
qed

text \<open>
  A PDF attachment takes the text branch with its trimmed file path as the prompt; a
  PNG attachment is downloaded first.
\<close>

theorem image_branch_selection_witness:
  "\<not> isImageMessage pdf_message \<and>
   fetched (emitted (fresh_world helpful)
     (snd (processMessage sample_config pdf_message (fresh_world helpful)))) =
     [completion_request sample_config
        (text_requestBody (js ''gpt-3.5-turbo'') (js ''2024/report.pdf''))] \<and>
   isImageMessage image_message \<and>
   hd (fetched (emitted (fresh_world helpful)
     (snd (processMessage sample_config image_message (fresh_world helpful))))) =
     image_request (js ''https://chat.example.org/api/resource/file?file_path=2024%2Fcat.png'')"
  using image_branch_selection [of pdf_message "fresh_world helpful" sample_config]
    image_branch_selection [of image_message "fresh_world helpful" sample_config]
  by (auto simp: sample_kinds sample_prompt sample_path helpful_first_try sample_models js_append)

subsection \<open>Per-message task\<close>

lemma sendMessageToBot_shape:
  "trace (snd (sendMessageToBot cfg url message w)) =
     trace w @ backoff_trace (reply_request cfg url message) 0 (attempts_made w 3) @
     [EvLog (if isl (fst (sendMessageToBot cfg url message w)) then js ''bot: send failed''
             else js ''bot: send successfully'')] \<and>
   0 < attempts_made w 3"
  by (simp add: sendMessageToBot_trace attempts_made_pos)

lemma on_error_fst: "fst (on_error cfg m w) = Inr ()"
  by (cases "sendMessageToBot cfg (reply_url cfg m) errorMessage (log (js ''Error processing message'') w)")
     (simp add: on_error_def split: sum.splits)

lemma on_error_trace:
  "\<exists>k ok es. 0 < k \<and>
     trace (snd (on_error cfg m w)) =
       trace w @ EvLog (js ''Error processing message'') #
       backoff_trace (reply_request cfg (reply_url cfg m) errorMessage) 0 k @
       EvLog (if \<not> ok then js ''bot: send failed'' else js ''bot: send successfully'') # es \<and>
     (if ok then es = [] else es = [EvLog (js ''Error sending error message to user'')])"
proof -
  let ?w = "log (js ''Error processing message'') w"
  let ?send = "sendMessageToBot cfg (reply_url cfg m) errorMessage ?w"
  note shape = sendMessageToBot_shape [of cfg "reply_url cfg m" errorMessage ?w]
  obtain d w' where s: "?send = (d, w')"
    by (cases ?send)
  show ?thesis
  proof (cases d)
    case (Inr u)
    with s shape show ?thesis
      by (intro exI [of _ "attempts_made ?w 3"] exI [of _ True] exI [of _ "[]"])
         (simp add: on_error_def log_world)
  next
    case (Inl e)
    with s shape show ?thesis
      by (intro exI [of _ "attempts_made ?w 3"] exI [of _ False]
            exI [of _ "[EvLog (js ''Error sending error message to user'')]"])
         (simp add: on_error_def log_world)
  qed
qed

lemma batch_task_fst: "fst (batch_task cfg m w) = Inr ()"
proof (cases "processMessage cfg m w")
  case (Pair r w1)
  show ?thesis
  proof (cases r)
    case (Inl e)
    with Pair show ?thesis by (simp add: batch_task_def on_error_fst)
  next
    case (Inr reply)
    with Pair show ?thesis
      by (cases "sendMessageToBot cfg (reply_url cfg m) reply w1")
         (simp add: batch_task_def on_error_fst split: sum.splits)
  qed
qed

lemma dispatches_on_error_tail:
  assumes "0 < k"
    and "if ok then es = [] else es = [EvLog (js ''Error sending error message to user'')]"
  shows "dispatches cur
           (EvLog (js ''Error processing message'') # backoff_trace req 0 k @
            EvLog (if \<not> ok then js ''bot: send failed'' else js ''bot: send successfully'') # es) =
         [(Some req, ok)]"
proof -
  have q: "\<forall>e\<in>set [EvLog (js ''Error processing message'')]. \<not> send_line e"
    by simp
  have es: "dispatches (Some req) es = []"
    using assms(2) by (cases ok) (simp_all add: js_def)
  have "dispatches cur ([EvLog (js ''Error processing message'')] @ backoff_trace req 0 k @
            EvLog (if \<not> ok then js ''bot: send failed'' else js ''bot: send successfully'') # es) =
        dispatches (Some req)
          (EvLog (if \<not> ok then js ''bot: send failed'' else js ''bot: send successfully'') # es)"
    using q assms(1) by (rule dispatches_quiet)
  then show ?thesis
    by (simp only: dispatches_send_line es append_Cons append_Nil not_not)
qed

lemma batch_task_dispatches:
  "\<exists>es. trace (snd (batch_task cfg m w)) = trace w @ es \<and>
     (case fst (processMessage cfg m w) of
        Inr reply \<Rightarrow>
          if isl (fst (sendMessageToBot cfg (reply_url cfg m) reply (snd (processMessage cfg m w))))
          then
            dispatches None es =
              [(Some (reply_request cfg (reply_url cfg m) reply), False),
               (Some (reply_request cfg (reply_url cfg m) errorMessage), True)] \<or>
            dispatches None es =
              [(Some (reply_request cfg (reply_url cfg m) reply), False),
               (Some (reply_request cfg (reply_url cfg m) errorMessage), False)] \<and>
            last es = EvLog (js ''Error sending error message to user'')
          else dispatches None es = [(Some (reply_request cfg (reply_url cfg m) reply), True)]
      | Inl e \<Rightarrow>
          dispatches None es = [(Some (reply_request cfg (reply_url cfg m) errorMessage), True)] \<or>
          dispatches None es = [(Some (reply_request cfg (reply_url cfg m) errorMessage), False)] \<and>
          last es = EvLog (js ''Error sending error message to user''))"
proof -
  let ?url = "reply_url cfg m"
  let ?F = "reply_request cfg ?url errorMessage"
  obtain r w1 where p: "processMessage cfg m w = (r, w1)"
    by (cases "processMessage cfg m w")
  obtain gen where gen: "trace w1 = trace w @ gen" "\<forall>e\<in>set gen. \<not> send_line e"
    using processMessage_quiet [of cfg m w] p by auto
  show ?thesis
  proof (cases r)
    case (Inl e)
    obtain k ok es where f: "0 < k"
      "trace (snd (on_error cfg m w1)) =
         trace w1 @ EvLog (js ''Error processing message'') # backoff_trace ?F 0 k @
         EvLog (if \<not> ok then js ''bot: send failed'' else js ''bot: send successfully'') # es"
      "if ok then es = [] else es = [EvLog (js ''Error sending error message to user'')]"
      using on_error_trace [of cfg m w1] by blast
    let ?tail = "EvLog (js ''Error processing message'') # backoff_trace ?F 0 k @
         EvLog (if \<not> ok then js ''bot: send failed'' else js ''bot: send successfully'') # es"
    have d: "dispatches None (gen @ ?tail) = [(Some ?F, ok)]"
    proof -
      have "dispatches None ((gen @ [EvLog (js ''Error processing message'')]) @ backoff_trace ?F 0 k @
              EvLog (if \<not> ok then js ''bot: send failed'' else js ''bot: send successfully'') # es) =
            dispatches (Some ?F)
              (EvLog (if \<not> ok then js ''bot: send failed'' else js ''bot: send successfully'') # es)"
        using gen(2) f(1) by (intro dispatches_quiet) auto
      moreover have "dispatches (Some ?F) es = []"
        using f(3) by (cases ok) (simp_all add: js_def)
      ultimately show ?thesis
        by (simp only: dispatches_send_line append_Cons append_Nil not_not append_assoc)
    qed
    have l: "\<not> ok \<Longrightarrow> last (gen @ ?tail) = EvLog (js ''Error sending error message to user'')"
      using f(3) by simp
    have "trace (snd (batch_task cfg m w)) = trace w @ (gen @ ?tail)"
      using Inl p f(2) gen(1) by (simp add: batch_task_def)
    with d l Inl p show ?thesis
      by (intro exI [of _ "gen @ ?tail"]) (cases ok; simp)
  next
    case (Inr reply)
    let ?P = "reply_request cfg ?url reply"
    obtain d w2 where s: "sendMessageToBot cfg ?url reply w1 = (d, w2)"
      by (cases "sendMessageToBot cfg ?url reply w1")
    note shape = sendMessageToBot_shape [of cfg ?url reply w1]
    let ?k = "attempts_made w1 3"
    have w2: "trace w2 = trace w @ gen @ backoff_trace ?P 0 ?k @
                [EvLog (if isl d then js ''bot: send failed'' else js ''bot: send successfully'')]"
      using shape s gen(1) by simp
    have first: "dispatches None (gen @ backoff_trace ?P 0 ?k @
                   EvLog (if isl d then js ''bot: send failed'' else js ''bot: send successfully'') # rest) =
                 (Some ?P, \<not> isl d) # dispatches (Some ?P) rest" for rest
    proof -
      have "dispatches None (gen @ backoff_trace ?P 0 ?k @
                   EvLog (if isl d then js ''bot: send failed'' else js ''bot: send successfully'') # rest) =
            dispatches (Some ?P)
              (EvLog (if isl d then js ''bot: send failed'' else js ''bot: send successfully'') # rest)"
        using gen(2) shape by (intro dispatches_quiet) auto
      then show ?thesis
        by (simp only: dispatches_send_line)
    qed
    show ?thesis
    proof (cases d)
      case (Inr u)
      have "trace (snd (batch_task cfg m w)) = trace w @ (gen @ backoff_trace ?P 0 ?k @
                [EvLog (if isl d then js ''bot: send failed'' else js ''bot: send successfully'')])"
        using \<open>r = Inr reply\<close> p s Inr w2 by (simp add: batch_task_def)
      moreover have "dispatches None (gen @ backoff_trace ?P 0 ?k @
                [EvLog (if isl d then js ''bot: send failed'' else js ''bot: send successfully'')]) =
              [(Some ?P, True)]"
        using first [of "[]"] Inr by simp
      ultimately show ?thesis
        using \<open>r = Inr reply\<close> p s Inr by (intro exI [of _ "gen @ backoff_trace ?P 0 ?k @
                [EvLog (if isl d then js ''bot: send failed'' else js ''bot: send successfully'')]"]) simp
    next
      case (Inl e)
      obtain k ok es where f: "0 < k"
        "trace (snd (on_error cfg m w2)) =
           trace w2 @ EvLog (js ''Error processing message'') # backoff_trace ?F 0 k @
           EvLog (if \<not> ok then js ''bot: send failed'' else js ''bot: send successfully'') # es"
        "if ok then es = [] else es = [EvLog (js ''Error sending error message to user'')]"
        using on_error_trace [of cfg m w2] by blast
      let ?tail = "EvLog (js ''Error processing message'') # backoff_trace ?F 0 k @
           EvLog (if \<not> ok then js ''bot: send failed'' else js ''bot: send successfully'') # es"
      let ?all = "gen @ backoff_trace ?P 0 ?k @
                EvLog (if isl d then js ''bot: send failed'' else js ''bot: send successfully'') # ?tail"
      have tr: "trace (snd (batch_task cfg m w)) = trace w @ ?all"
        using \<open>r = Inr reply\<close> p s Inl w2 f(2) by (simp add: batch_task_def)
      have "dispatches (Some ?P) ?tail = [(Some ?F, ok)]"
        using f(1,3) by (rule dispatches_on_error_tail)
      then have d: "dispatches None ?all = [(Some ?P, False), (Some ?F, ok)]"
        using first [of ?tail] Inl by simp
      have l: "\<not> ok \<Longrightarrow> last ?all = EvLog (js ''Error sending error message to user'')"
        using f(3) by simp
      show ?thesis
        using tr d l \<open>r = Inr reply\<close> p s Inl by (intro exI [of _ ?all]) (cases ok; simp)
    qed
  qed
qed

lemma dispatches_length: "length (dispatches cur es) = send_calls es"
proof (induction es arbitrary: cur)
  case Nil
  then show ?case by (simp add: send_calls_def)
next
  case (Cons e es)
  show ?case
  proof (cases e)
    case (EvLog m)
    then show ?thesis
      using Cons [of cur] by (simp add: send_calls_def send_line_def)
  qed (use Cons in \<open>simp_all add: send_calls_def send_line_def\<close>)
qed

lemma batch_task_calls:
  "1 \<le> send_calls (emitted w (snd (batch_task cfg m w))) \<and>
   send_calls (emitted w (snd (batch_task cfg m w))) \<le> 2"
proof -
  obtain es where es: "trace (snd (batch_task cfg m w)) = trace w @ es"
    and shape: "case fst (processMessage cfg m w) of
        Inr reply \<Rightarrow>
          if isl (fst (sendMessageToBot cfg (reply_url cfg m) reply (snd (processMessage cfg m w))))
          then
            dispatches None es =
              [(Some (reply_request cfg (reply_url cfg m) reply), False),
               (Some (reply_request cfg (reply_url cfg m) errorMessage), True)] \<or>
            dispatches None es =
              [(Some (reply_request cfg (reply_url cfg m) reply), False),
               (Some (reply_request cfg (reply_url cfg m) errorMessage), False)] \<and>
            last es = EvLog (js ''Error sending error message to user'')
          else dispatches None es = [(Some (reply_request cfg (reply_url cfg m) reply), True)]
      | Inl e \<Rightarrow>
          dispatches None es = [(Some (reply_request cfg (reply_url cfg m) errorMessage), True)] \<or>
          dispatches None es = [(Some (reply_request cfg (reply_url cfg m) errorMessage), False)] \<and>
          last es = EvLog (js ''Error sending error message to user'')"
    using batch_task_dispatches [of cfg m w] by blast
  have "length (dispatches None es) = 1 \<or> length (dispatches None es) = 2"
    using shape by (auto split: sum.splits if_splits)
  then show ?thesis
    using es by (auto simp: emitted_append dispatches_length)
qed

lemma fresh_world_trace: "emitted (fresh_world net) w' = trace w'"
  by (simp add: emitted_def fresh_world_def)

lemma tasks_calls:
  "length xs \<le> send_calls (concat (map (\<lambda>r. trace (snd r))
      (map (\<lambda>(j, message). batch_task cfg message (fresh_world (nets j))) xs))) \<and>
   send_calls (concat (map (\<lambda>r. trace (snd r))
      (map (\<lambda>(j, message). batch_task cfg message (fresh_world (nets j))) xs))) \<le> 2 * length xs"
proof (induction xs)
  case Nil
  then show ?case by (simp add: send_calls_def)
next
  case (Cons x xs)
  obtain j m where x: "x = (j, m)" by (cases x)
  have "1 \<le> send_calls (trace (snd (batch_task cfg m (fresh_world (nets j))))) \<and>
        send_calls (trace (snd (batch_task cfg m (fresh_world (nets j))))) \<le> 2"
    using batch_task_calls [of "fresh_world (nets j)" cfg m] by (simp add: fresh_world_trace)
  with Cons x show ?case
    by (simp add: send_calls_append)
qed

lemma run_batch_calls:
  "length b \<le> send_calls (concat (map (\<lambda>r. trace (snd r)) (run_batch cfg nets b))) \<and>
   send_calls (concat (map (\<lambda>r. trace (snd r)) (run_batch cfg nets b))) \<le> 2 * length b"
  using tasks_calls [of "enumerate 0 b" cfg nets] by (simp add: run_batch_def)

lemma unreachable_attempt: "\<forall>n. isl (result (network w n)) \<Longrightarrow> isl (attempt w j)"
  by (simp add: attempt_def Let_def)

lemma sendMessageToBot_unreachable:
  "\<forall>n. isl (result (network w n)) \<Longrightarrow> isl (fst (sendMessageToBot cfg url message w))"
proof -
  assume "\<forall>n. isl (result (network w n))"
  then have "isl (attempt w (attempts_made w 3 - 1))"
    by (rule unreachable_attempt)
  then show ?thesis
    by (cases "attempt w (attempts_made w 3 - 1)") (simp_all add: sendMessageToBot_fst)
qed

lemma batch_task_unreachable:
  assumes down: "\<forall>n. isl (result (net n))" and plain: "\<not> isImageMessage m"
  shows "send_calls (trace (snd (batch_task cfg m (fresh_world net)))) = 2"
proof -
  let ?w = "fresh_world net"
  obtain reply where reply: "fst (processMessage cfg m ?w) = Inr reply"
    using processMessage_text [OF plain, of cfg ?w] by simp
  have "network (snd (processMessage cfg m ?w)) = net"
    by (simp add: processMessage_network fresh_world_def)
  with down have failed:
    "isl (fst (sendMessageToBot cfg (reply_url cfg m) reply (snd (processMessage cfg m ?w))))"
    by (intro sendMessageToBot_unreachable) simp
  obtain es where es: "trace (snd (batch_task cfg m ?w)) = trace ?w @ es"
    and "case fst (processMessage cfg m ?w) of
        Inr reply \<Rightarrow>
          if isl (fst (sendMessageToBot cfg (reply_url cfg m) reply (snd (processMessage cfg m ?w))))
          then
            dispatches None es =
              [(Some (reply_request cfg (reply_url cfg m) reply), False),
               (Some (reply_request cfg (reply_url cfg m) errorMessage), True)] \<or>
            dispatches None es =
              [(Some (reply_request cfg (reply_url cfg m) reply), False),
               (Some (reply_request cfg (reply_url cfg m) errorMessage), False)] \<and>
            last es = EvLog (js ''Error sending error message to user'')
          else dispatches None es = [(Some (reply_request cfg (reply_url cfg m) reply), True)]
      | Inl e \<Rightarrow>
          dispatches None es = [(Some (reply_request cfg (reply_url cfg m) errorMessage), True)] \<or>
          dispatches None es = [(Some (reply_request cfg (reply_url cfg m) errorMessage), False)] \<and>
          last es = EvLog (js ''Error sending error message to user'')"
    using batch_task_dispatches [of cfg m ?w] by blast
  then have "length (dispatches None es) = 2"
    using reply failed by auto
  then show ?thesis
    using es by (simp add: dispatches_length fresh_world_def)
qed

lemma sample_reply_url:
  "reply_url sample_config (text_message 1) = js ''https://chat.example.org/api/bot/reply/1''"
proof -
  have "decimal 1 = js ''1''"
    by code_simp
  then show ?thesis
    by (simp add: reply_url_def sample_config_def text_message_def js_append)
qed

lemma offline_backend: "backend_reply (fresh_world offline) = Inl TypeError"
  by (simp add: backend_reply_def attempt_def fresh_world_def offline_def)

subsection \<open>Executions of the module\<close>

lemma run_batch_ok: "list_all (\<lambda>r. \<not> isl (fst r)) (run_batch cfg nets b)"
  by (simp add: run_batch_def list_all_iff batch_task_fst split_beta)

lemma settle_batch_eq:
  "i < length (loops s) \<Longrightarrow>
   settle_batch cfg i nets s =
     loop_turn (maxConcurrent (loops s ! i))
       (s\<lparr>loops := take i (loops s) @ drop (Suc i) (loops s),
          console := console s @
            concat (map (\<lambda>r. trace (snd r)) (run_batch cfg nets (batch (loops s ! i))))\<rparr>)"
  by (simp add: settle_batch_def Let_def run_batch_ok)

lemma settle_batch_idle: "length (loops s) \<le> i \<Longrightarrow> settle_batch cfg i nets s = s"
  by (simp add: settle_batch_def)

lemma consistent_initial: "consistent initial"
  by (simp add: consistent_def initial_def)

lemma consistent_say: "consistent (say m s) = consistent s"
  by (simp add: consistent_def say_def)

lemma consistent_handler: "consistent s \<Longrightarrow> consistent (snd (handler cfg req s))"
proof -
  assume c: "consistent s"
  have push: "consistent
      (let s2 = s1\<lparr>messageQueue := messageQueue s1 @ [data], enqueued := enqueued s1 @ [data]\<rparr>
       in if processingPromise s2 = None
          then (processQueueParallel 3 s2)\<lparr>processingPromise := Some Promise\<rparr> else s2)"
    if "consistent s1" for s1 data
  proof (cases "processingPromise s1")
    case None
    with that have "loops s1 = []" "messageQueue s1 = []" "enqueued s1 = concat (batches s1)"
      by (simp_all add: consistent_def)
    with None show ?thesis
      by (simp add: consistent_def processQueueParallel_def loop_turn_def Let_def)
  next
    case (Some p)
    with that show ?thesis
      by (auto simp: consistent_def Let_def)
  qed
  show ?thesis
    using c push [of "say (js ''bot: handler POST'') (say (js ''bot: from webhook push'') s)"]
    by (auto simp: handler_def Let_def consistent_say split: sum.splits)
qed

lemma consistent_settle: "consistent s \<Longrightarrow> consistent (settle_batch cfg i nets s)"
proof (cases "i < length (loops s)")
  case False
  assume "consistent s"
  with False show ?thesis by (simp add: settle_batch_idle)
next
  case True
  assume c: "consistent s"
  with True obtain l where l: "loops s = [l]" "i = 0"
    by (cases "loops s") (auto simp: consistent_def)
  from c l have flag: "processingPromise s \<noteq> None" and pos: "0 < maxConcurrent l"
    and conserve: "enqueued s = concat (batches s) @ messageQueue s"
    by (simp_all add: consistent_def)
  show ?thesis
    using flag pos conserve l
    by (simp add: settle_batch_eq consistent_def loop_turn_def Let_def)
qed

lemma consistent_step: "consistent s \<Longrightarrow> consistent (step cfg s a)"
  by (cases a) (simp_all add: step_def consistent_handler consistent_settle)

lemma consistent_foldl: "consistent s \<Longrightarrow> consistent (foldl (step cfg) s acts)"
  by (induction acts arbitrary: s) (simp_all add: consistent_step)

lemma consistent_run: "consistent (run cfg acts)"
  by (simp add: run_def consistent_foldl consistent_initial)

lemma run_append: "run cfg (acts @ acts') = foldl (step cfg) (run cfg acts) acts'"
  by (simp add: run_def)

lemma loop_turn_history:
  "prefix (batches s) (batches (loop_turn n s))" "enqueued (loop_turn n s) = enqueued s"
  by (simp_all add: loop_turn_def Let_def)

lemma step_history:
  "prefix (batches s) (batches (step cfg s a)) \<and> prefix (enqueued s) (enqueued (step cfg s a))"
proof (cases a)
  case (Webhook req)
  then show ?thesis
    by (auto simp: step_def handler_def Let_def say_def processQueueParallel_def loop_turn_def
        split: sum.splits)
next
  case (BatchSettled i nets)
  then show ?thesis
    by (cases "i < length (loops s)")
       (simp_all add: step_def settle_batch_eq settle_batch_idle loop_turn_def Let_def)
qed

lemma foldl_history:
  "prefix (batches s) (batches (foldl (step cfg) s acts)) \<and>
   prefix (enqueued s) (enqueued (foldl (step cfg) s acts))"
proof (induction acts arbitrary: s)
  case Nil
  then show ?case by simp
next
  case (Cons a acts)
  show ?case
    using step_history [of s cfg a] Cons [of "step cfg s a"]
    by (auto intro: prefix_order.order_trans)
qed

lemma settles_idle:
  "loops s = [] \<Longrightarrow> foldl (step cfg) s (map (BatchSettled 0) netss) = s"
  by (induction netss) (simp_all add: step_def settle_batch_idle)

lemma settles_drain:
  "consistent s \<Longrightarrow> length (messageQueue s) < length netss \<Longrightarrow>
   loops (foldl (step cfg) s (map (BatchSettled 0) netss)) = [] \<and>
   messageQueue (foldl (step cfg) s (map (BatchSettled 0) netss)) = []"
proof (induction netss arbitrary: s)
  case Nil
  then show ?case by simp
next
  case (Cons nets netss)
  let ?s1 = "step cfg s (BatchSettled 0 nets)"
  have c1: "consistent ?s1"
    using Cons.prems(1) by (rule consistent_step)
  show ?case
  proof (cases "loops s = []")
    case True
    then have "foldl (step cfg) s (map (BatchSettled 0) (nets # netss)) = s"
      by (rule settles_idle)
    with True Cons.prems(1) show ?thesis
      by (simp add: consistent_def)
  next
    case False
    with Cons.prems(1) obtain l where l: "loops s = [l]" "0 < maxConcurrent l"
      by (cases "loops s") (auto simp: consistent_def)
    have s1: "?s1 = loop_turn (maxConcurrent l)
                (s\<lparr>loops := [], console := console s @
                   concat (map (\<lambda>r. trace (snd r)) (run_batch cfg nets (batch l)))\<rparr>)"
      using l by (simp add: step_def settle_batch_eq)
    show ?thesis
    proof (cases "messageQueue s = []")
      case True
      then have idle: "loops ?s1 = []"
        by (simp add: s1 loop_turn_def)
      then have "foldl (step cfg) ?s1 (map (BatchSettled 0) netss) = ?s1"
        by (rule settles_idle)
      moreover have "messageQueue ?s1 = []"
        using True by (simp add: s1 loop_turn_def)
      ultimately show ?thesis
        using idle by simp
    next
      case False
      then have "length (messageQueue ?s1) < length (messageQueue s)"
        using l(2) by (simp add: s1 loop_turn_def Let_def)
      then have "length (messageQueue ?s1) < length netss"
        using Cons.prems(2) by simp
      then show ?thesis
        using Cons.IH [OF c1] by simp
    qed
  qed
qed

lemma settle_batch_enqueued: "enqueued (settle_batch cfg i nets s) = enqueued s"
  by (cases "i < length (loops s)")
     (simp_all add: settle_batch_eq settle_batch_idle loop_turn_def Let_def)

lemma settles_enqueued:
  "enqueued (foldl (step cfg) s (map (BatchSettled 0) netss)) = enqueued s"
  by (induction netss arbitrary: s) (simp_all add: step_def settle_batch_enqueued)

lemma sample_senders:
  "from_uid (text_message n) \<noteq> VOCECHAT_BOT_ID sample_config"
  "target (text_message n) = ToUser 2"
  "from_uid (group_message 7 body) \<noteq> VOCECHAT_BOT_ID sample_config"
  "from_uid (group_message 2 body) = VOCECHAT_BOT_ID sample_config"
  "target (group_message sender body) = ToGroup 5"
  by (simp_all add: text_message_def group_message_def sample_config_def)

lemma two_arrivals_run:
  "loops (run sample_config two_arrivals) = [\<lparr>maxConcurrent = 3, batch = [text_message 2]\<rparr>]"
  "processingPromise (run sample_config two_arrivals) = Some Promise"
  "messageQueue (run sample_config two_arrivals) = []"
  "enqueued (run sample_config two_arrivals) = [text_message 1, text_message 2]"
  "batches (run sample_config two_arrivals) = [[text_message 1], [text_message 2]]"
  by (simp_all add: run_def two_arrivals_def step_def handler_def post_def Let_def in_group_def
      say_def sample_senders processQueueParallel_def loop_turn_def settle_batch_eq initial_def)

lemma six_arrivals_run:
  "loops (run sample_config six_arrivals) = [\<lparr>maxConcurrent = 3, batch = [text_message 0]\<rparr>]"
  "processingPromise (run sample_config six_arrivals) = Some Promise"
  "messageQueue (run sample_config six_arrivals) =
     [text_message 1, text_message 2, text_message 3, text_message 4, text_message 5]"
  by (simp_all add: run_def six_arrivals_def step_def handler_def post_def Let_def in_group_def
      say_def sample_senders processQueueParallel_def loop_turn_def initial_def)

lemma default_step:
  "\<forall>l\<in>set (loops s). maxConcurrent l = 3 \<Longrightarrow> \<forall>l\<in>set (loops (step cfg s a)). maxConcurrent l = 3"
proof (cases a)
  case (Webhook req)
  assume "\<forall>l\<in>set (loops s). maxConcurrent l = 3"
  with Webhook show ?thesis
    by (auto simp: step_def handler_def Let_def say_def processQueueParallel_def loop_turn_def
        split: sum.splits if_splits)
next
  case (BatchSettled i nets)
  assume d: "\<forall>l\<in>set (loops s). maxConcurrent l = 3"
  show ?thesis
  proof (cases "i < length (loops s)")
    case False
    with d BatchSettled show ?thesis
      by (simp add: step_def settle_batch_idle)
  next
    case True
    then have "maxConcurrent (loops s ! i) = 3"
      using d by simp
    with d True BatchSettled show ?thesis
      by (auto simp: step_def settle_batch_eq loop_turn_def Let_def
          dest: in_set_takeD in_set_dropD)
  qed
qed

lemma default_foldl:
  "\<forall>l\<in>set (loops s). maxConcurrent l = 3 \<Longrightarrow>
   \<forall>l\<in>set (loops (foldl (step cfg) s acts)). maxConcurrent l = 3"
proof (induction acts arbitrary: s)
  case Nil
  then show ?case by simp
next
  case (Cons a acts)
  from Cons.prems have "\<forall>l\<in>set (loops (step cfg s a)). maxConcurrent l = 3"
    by (rule default_step)
  then show ?case
    using Cons.IH by simp
qed

lemma default_run: "\<forall>l\<in>set (loops (run cfg acts)). maxConcurrent l = 3"
  unfolding run_def by (rule default_foldl) (simp add: initial_def)

lemma settle_batch_console:
  "i < length (loops s) \<Longrightarrow>
   console (settle_batch cfg i nets s) =
     console s @ concat (map (\<lambda>(j, message). trace (snd (batch_task cfg message (fresh_world (nets j)))))
       (enumerate 0 (batch (loops s ! i))))"
  by (simp add: settle_batch_eq loop_turn_def Let_def run_batch_def comp_def case_prod_unfold)

lemma run_batch_nth:
  "j < length b \<Longrightarrow> run_batch cfg nets b ! j = batch_task cfg (b ! j) (fresh_world (nets j))"
  by (simp add: run_batch_def nth_enumerate_eq)

lemma run_batch_length: "length (run_batch cfg nets b) = length b"
  by (simp add: run_batch_def)

lemma waiting_drain:
  assumes five: "length (messageQueue (run cfg acts)) = 5"
  shows "length (loops (run cfg acts)) = 1 \<and>
    loops (run cfg (acts @ [BatchSettled 0 nets0])) =
      [\<lparr>maxConcurrent = 3, batch = take 3 (messageQueue (run cfg acts))\<rparr>] \<and>
    loops (run cfg (acts @ [BatchSettled 0 nets0, BatchSettled 0 nets1])) =
      [\<lparr>maxConcurrent = 3, batch = drop 3 (messageQueue (run cfg acts))\<rparr>] \<and>
    loops (run cfg (acts @ [BatchSettled 0 nets0, BatchSettled 0 nets1, BatchSettled 0 nets2])) = [] \<and>
    messageQueue (run cfg (acts @ [BatchSettled 0 nets0, BatchSettled 0 nets1, BatchSettled 0 nets2])) = [] \<and>
    processingPromise (run cfg (acts @ [BatchSettled 0 nets0, BatchSettled 0 nets1, BatchSettled 0 nets2])) = None \<and>
    console (run cfg (acts @ [BatchSettled 0 nets0, BatchSettled 0 nets1, BatchSettled 0 nets2])) =
      console (run cfg (acts @ [BatchSettled 0 nets0])) @
      concat (map (\<lambda>r. trace (snd r)) (run_batch cfg nets1 (take 3 (messageQueue (run cfg acts))))) @
      concat (map (\<lambda>r. trace (snd r)) (run_batch cfg nets2 (drop 3 (messageQueue (run cfg acts)))))"
proof -
  let ?s = "run cfg acts"
  let ?q = "messageQueue ?s"
  have c: "consistent ?s"
    by (rule consistent_run)
  from five have q: "?q \<noteq> []"
    by auto
  with c have "loops ?s \<noteq> []" "length (loops ?s) \<le> 1"
    by (auto simp: consistent_def)
  then obtain l where l: "loops ?s = [l]"
    by (cases "loops ?s") auto
  then have n: "maxConcurrent l = 3"
    using default_run [of cfg acts] by simp
  let ?b0 = "concat (map (\<lambda>r. trace (snd r)) (run_batch cfg nets0 (batch l)))"
  let ?b1 = "concat (map (\<lambda>r. trace (snd r)) (run_batch cfg nets1 (take 3 ?q)))"
  let ?b2 = "concat (map (\<lambda>r. trace (snd r)) (run_batch cfg nets2 (drop 3 ?q)))"
  define s1 where "s1 = settle_batch cfg 0 nets0 ?s"
  define s2 where "s2 = settle_batch cfg 0 nets1 s1"
  define s3 where "s3 = settle_batch cfg 0 nets2 s2"
  have s1: "s1 = ?s\<lparr>messageQueue := drop 3 ?q,
                    loops := [\<lparr>maxConcurrent = 3, batch = take 3 ?q\<rparr>],
                    batches := batches ?s @ [take 3 ?q],
                    console := console ?s @ ?b0\<rparr>"
    using l n q by (simp add: s1_def settle_batch_eq loop_turn_def Let_def)
  have s2: "s2 = ?s\<lparr>messageQueue := [],
                    loops := [\<lparr>maxConcurrent = 3, batch = drop 3 ?q\<rparr>],
                    batches := batches ?s @ [take 3 ?q, drop 3 ?q],
                    console := console ?s @ ?b0 @ ?b1\<rparr>"
    using five by (simp add: s2_def s1 settle_batch_eq loop_turn_def Let_def)
  have s3: "s3 = ?s\<lparr>messageQueue := [], loops := [], processingPromise := None,
                    batches := batches ?s @ [take 3 ?q, drop 3 ?q],
                    console := console ?s @ ?b0 @ ?b1 @ ?b2\<rparr>"
    by (simp add: s3_def s2 settle_batch_eq loop_turn_def Let_def)
  have r1: "run cfg (acts @ [BatchSettled 0 nets0]) = s1"
    by (simp add: s1_def run_def step_def)
  have r2: "run cfg (acts @ [BatchSettled 0 nets0, BatchSettled 0 nets1]) = s2"
    by (simp add: s2_def s1_def run_def step_def)
  have r3: "run cfg (acts @ [BatchSettled 0 nets0, BatchSettled 0 nets1, BatchSettled 0 nets2]) = s3"
    by (simp add: s3_def s2_def s1_def run_def step_def)
  show ?thesis
    unfolding r1 r2 r3 using l by (simp add: s1 s2 s3)
qed

text \<open>
  Claim C1. In every execution, the messages pushed so far are, in their order of
  arrival, the batches spliced off so far followed by the queue: a message leaves the
  queue at most once (with distinct ids, no id occurs twice among the removed messages
  nor both there and in the queue). Batches and arrivals only ever grow, so a removed
  message is not revisited. Whenever no drain loop is suspended, in particular right
  after one has ended, the queue is empty. And no message is stuck: once more batches
  have settled than messages were waiting, the queue is empty, the loop is over and
  every message pushed has been removed.
\<close>

theorem queue_drained_once:
  "enqueued (run cfg acts) = concat (batches (run cfg acts)) @ messageQueue (run cfg acts) \<and>
   (loops (run cfg acts) = [] \<longrightarrow> messageQueue (run cfg acts) = []) \<and>
   (distinct (map mid (enqueued (run cfg acts))) \<longrightarrow>
      distinct (map mid (concat (batches (run cfg acts)))) \<and>
      mid ` set (concat (batches (run cfg acts))) \<inter> mid ` set (messageQueue (run cfg acts)) = {}) \<and>
   prefix (batches (run cfg acts)) (batches (run cfg (acts @ later))) \<and>
   prefix (enqueued (run cfg acts)) (enqueued (run cfg (acts @ later))) \<and>
   (length (messageQueue (run cfg acts)) < length netss \<longrightarrow>
      messageQueue (run cfg (acts @ map (BatchSettled 0) netss)) = [] \<and>
      loops (run cfg (acts @ map (BatchSettled 0) netss)) = [] \<and>
      concat (batches (run cfg (acts @ map (BatchSettled 0) netss))) = enqueued (run cfg acts))"
proof (intro conjI impI)
  note c = consistent_run [of cfg acts]
  show conserve: "enqueued (run cfg acts) = concat (batches (run cfg acts)) @ messageQueue (run cfg acts)"
    using c by (simp add: consistent_def)
  show "messageQueue (run cfg acts) = []" if "loops (run cfg acts) = []"
    using c that by (simp add: consistent_def)
  show "distinct (map mid (concat (batches (run cfg acts))))"
    if "distinct (map mid (enqueued (run cfg acts)))"
    using that unfolding conserve by simp
  show "mid ` set (concat (batches (run cfg acts))) \<inter> mid ` set (messageQueue (run cfg acts)) = {}"
    if "distinct (map mid (enqueued (run cfg acts)))"
    using that unfolding conserve by simp
  show "prefix (batches (run cfg acts)) (batches (run cfg (acts @ later)))"
    "prefix (enqueued (run cfg acts)) (enqueued (run cfg (acts @ later)))"
    using foldl_history [of "run cfg acts" cfg later] by (simp_all add: run_append)
next
  assume n: "length (messageQueue (run cfg acts)) < length netss"
  let ?s = "run cfg (acts @ map (BatchSettled 0) netss)"
  have drained: "loops ?s = [] \<and> messageQueue ?s = []"
    unfolding run_append using consistent_run n by (rule settles_drain)
  then show "messageQueue ?s = []" "loops ?s = []"
    by simp_all
  have "enqueued ?s = enqueued (run cfg acts)"
    by (simp add: run_append settles_enqueued)
  moreover have "enqueued ?s = concat (batches ?s) @ messageQueue ?s"
    using consistent_run [of cfg "acts @ map (BatchSettled 0) netss"] by (simp add: consistent_def)
  ultimately show "concat (batches ?s) = enqueued (run cfg acts)"
    using drained by simp
qed

text \<open>
  Two messages arrive and one batch settles: both have been removed, each once; one
  more settled batch ends the loop on an empty queue.
\<close>

theorem queue_drained_once_witness:
  "distinct (map mid (enqueued (run sample_config two_arrivals))) \<and>
   enqueued (run sample_config two_arrivals) = [text_message 1, text_message 2] \<and>
   concat (batches (run sample_config two_arrivals)) = [text_message 1, text_message 2] \<and>
   messageQueue (run sample_config two_arrivals) = [] \<and>
   loops (run sample_config (two_arrivals @ map (BatchSettled 0) [all_offline])) = [] \<and>
   messageQueue (run sample_config (two_arrivals @ map (BatchSettled 0) [all_offline])) = []"
  using queue_drained_once [of sample_config two_arrivals "[]" "[all_offline]"]
    queue_drained_once [of sample_config "two_arrivals @ map (BatchSettled 0) [all_offline]" "[]" "[]"]
  by (simp add: two_arrivals_run text_message_def)

text \<open>
  Claim C2. In every execution at most one drain loop is suspended, and
  \<open>processingPromise\<close> is null exactly when none is. In any state whatever, a step adds
  a loop only if it is a webhook request and \<open>processingPromise\<close> was null.
\<close>

theorem single_drain_loop:
  "length (loops (run cfg acts)) \<le> 1 \<and>
   (processingPromise (run cfg acts) = None \<longleftrightarrow> loops (run cfg acts) = []) \<and>
   (length (loops s) < length (loops (step cfg s a)) \<longrightarrow>
      processingPromise s = None \<and> (\<exists>req. a = Webhook req))"
proof (intro conjI impI)
  note c = consistent_run [of cfg acts]
  show "length (loops (run cfg acts)) \<le> 1"
    using c by (simp add: consistent_def)
  show "processingPromise (run cfg acts) = None \<longleftrightarrow> loops (run cfg acts) = []"
    using c by (simp add: consistent_def)
next
  assume grow: "length (loops s) < length (loops (step cfg s a))"
  have settle: "length (loops (settle_batch cfg i nets s)) \<le> length (loops s)" for i nets
    by (cases "i < length (loops s)")
       (auto simp: settle_batch_eq settle_batch_idle loop_turn_def Let_def)
  have web: "\<exists>req. a = Webhook req"
  proof (cases a)
    case (Webhook req)
    then show ?thesis by simp
  next
    case (BatchSettled i nets)
    with grow settle [of i nets] show ?thesis
      by (simp add: step_def)
  qed
  then show "\<exists>req. a = Webhook req" .
  from web obtain req where "a = Webhook req" ..
  with grow show "processingPromise s = None"
    by (auto simp: step_def handler_def Let_def say_def split: sum.splits if_splits)
qed

text \<open>
  The first request starts a loop from the idle state; after two requests and a settled
  batch there is still exactly one loop, and the flag is set.
\<close>

theorem single_drain_loop_witness:
  "length (loops initial) < length (loops (step sample_config initial (Webhook (post (text_message 1))))) \<and>
   processingPromise initial = None \<and>
   length (loops (run sample_config two_arrivals)) = 1 \<and>
   processingPromise (run sample_config two_arrivals) = Some Promise"
  using single_drain_loop [of sample_config two_arrivals initial "Webhook (post (text_message 1))"]
  by (simp add: two_arrivals_run initial_def step_def handler_def post_def Let_def in_group_def
      say_def sample_senders processQueueParallel_def loop_turn_def)

text \<open>
  Claim C6. The task of a message throws nothing. It calls the generator and then the
  dispatcher: if the generator returned a reply and its delivery succeeds, that is the
  only call of the dispatcher; if that delivery fails, exactly one more call follows,
  delivering \<open>errorMessage\<close> to the same reply URL, and when this one fails too the
  last event is the log line of that failure. (If the generator itself throws, the one
  call is the delivery of \<open>errorMessage\<close>.) The drain loop runs this task for every
  message of a batch, the \<open>j\<close>-th on the \<open>j\<close>-th message against its own network, and
  each ends without an error whatever the others did. When the batch of a loop settles,
  the console has grown by the traces of exactly these tasks, in the order of the
  batch; the loop takes its next turn whatever the outcomes were, and nothing is pushed
  back: the queue only loses the next batch.
\<close>

theorem batch_task_contained:
  "fst (batch_task cfg m w) = Inr () \<and>
   (case fst (processMessage cfg m w) of
      Inr reply \<Rightarrow>
        if isl (fst (sendMessageToBot cfg (reply_url cfg m) reply (snd (processMessage cfg m w))))
        then
          dispatches None (emitted w (snd (batch_task cfg m w))) =
            [(Some (reply_request cfg (reply_url cfg m) reply), False),
             (Some (reply_request cfg (reply_url cfg m) errorMessage), True)] \<or>
          dispatches None (emitted w (snd (batch_task cfg m w))) =
            [(Some (reply_request cfg (reply_url cfg m) reply), False),
             (Some (reply_request cfg (reply_url cfg m) errorMessage), False)] \<and>
          last (emitted w (snd (batch_task cfg m w))) =
            EvLog (js ''Error sending error message to user'')
        else dispatches None (emitted w (snd (batch_task cfg m w))) =
               [(Some (reply_request cfg (reply_url cfg m) reply), True)]
    | Inl e \<Rightarrow>
        dispatches None (emitted w (snd (batch_task cfg m w))) =
          [(Some (reply_request cfg (reply_url cfg m) errorMessage), True)] \<or>
        dispatches None (emitted w (snd (batch_task cfg m w))) =
          [(Some (reply_request cfg (reply_url cfg m) errorMessage), False)] \<and>
        last (emitted w (snd (batch_task cfg m w))) =
          EvLog (js ''Error sending error message to user'')) \<and>
   length (run_batch cfg nets b) = length b \<and>
   (j < length b \<longrightarrow>
      run_batch cfg nets b ! j = batch_task cfg (b ! j) (fresh_world (nets j)) \<and>
      fst (run_batch cfg nets b ! j) = Inr ()) \<and>
   (i < length (loops s) \<longrightarrow>
      console (settle_batch cfg i nets s) =
        console s @
        concat (map (\<lambda>(j, message). trace (snd (batch_task cfg message (fresh_world (nets j)))))
          (enumerate 0 (batch (loops s ! i)))) \<and>
      loops (settle_batch cfg i nets s) =
        take i (loops s) @ drop (Suc i) (loops s) @
        (if messageQueue s = [] then []
         else [\<lparr>maxConcurrent = maxConcurrent (loops s ! i),
                batch = take (nat (maxConcurrent (loops s ! i))) (messageQueue s)\<rparr>]) \<and>
      messageQueue (settle_batch cfg i nets s) =
        drop (nat (maxConcurrent (loops s ! i))) (messageQueue s) \<and>
      enqueued (settle_batch cfg i nets s) = enqueued s)"
proof (intro conjI impI)
  show "fst (batch_task cfg m w) = Inr ()"
    by (rule batch_task_fst)
next
  obtain es where es: "trace (snd (batch_task cfg m w)) = trace w @ es"
    and shape: "case fst (processMessage cfg m w) of
        Inr reply \<Rightarrow>
          if isl (fst (sendMessageToBot cfg (reply_url cfg m) reply (snd (processMessage cfg m w))))
          then
            dispatches None es =
              [(Some (reply_request cfg (reply_url cfg m) reply), False),
               (Some (reply_request cfg (reply_url cfg m) errorMessage), True)] \<or>
            dispatches None es =
              [(Some (reply_request cfg (reply_url cfg m) reply), False),
               (Some (reply_request cfg (reply_url cfg m) errorMessage), False)] \<and>
            last es = EvLog (js ''Error sending error message to user'')
          else dispatches None es = [(Some (reply_request cfg (reply_url cfg m) reply), True)]
      | Inl e \<Rightarrow>
          dispatches None es = [(Some (reply_request cfg (reply_url cfg m) errorMessage), True)] \<or>
          dispatches None es = [(Some (reply_request cfg (reply_url cfg m) errorMessage), False)] \<and>
          last es = EvLog (js ''Error sending error message to user'')"
    using batch_task_dispatches [of cfg m w] by blast
  have e: "emitted w (snd (batch_task cfg m w)) = es"
    using es by (rule emitted_append)
  show "case fst (processMessage cfg m w) of
      Inr reply \<Rightarrow>
        if isl (fst (sendMessageToBot cfg (reply_url cfg m) reply (snd (processMessage cfg m w))))
        then
          dispatches None (emitted w (snd (batch_task cfg m w))) =
            [(Some (reply_request cfg (reply_url cfg m) reply), False),
             (Some (reply_request cfg (reply_url cfg m) errorMessage), True)] \<or>
          dispatches None (emitted w (snd (batch_task cfg m w))) =
            [(Some (reply_request cfg (reply_url cfg m) reply), False),
             (Some (reply_request cfg (reply_url cfg m) errorMessage), False)] \<and>
          last (emitted w (snd (batch_task cfg m w))) =
            EvLog (js ''Error sending error message to user'')
        else dispatches None (emitted w (snd (batch_task cfg m w))) =
               [(Some (reply_request cfg (reply_url cfg m) reply), True)]
    | Inl e \<Rightarrow>
        dispatches None (emitted w (snd (batch_task cfg m w))) =
          [(Some (reply_request cfg (reply_url cfg m) errorMessage), True)] \<or>
        dispatches None (emitted w (snd (batch_task cfg m w))) =
          [(Some (reply_request cfg (reply_url cfg m) errorMessage), False)] \<and>
        last (emitted w (snd (batch_task cfg m w))) =
          EvLog (js ''Error sending error message to user'')"
    unfolding e by (rule shape)
next
  show "length (run_batch cfg nets b) = length b"
    by (rule run_batch_length)
next
  assume j: "j < length b"
  then show "run_batch cfg nets b ! j = batch_task cfg (b ! j) (fresh_world (nets j))"
    by (rule run_batch_nth)
  from j show "fst (run_batch cfg nets b ! j) = Inr ()"
    by (simp add: run_batch_nth batch_task_fst)
next
  assume i: "i < length (loops s)"
  then show "console (settle_batch cfg i nets s) =
        console s @
        concat (map (\<lambda>(j, message). trace (snd (batch_task cfg message (fresh_world (nets j)))))
          (enumerate 0 (batch (loops s ! i))))"
    by (rule settle_batch_console)
  from i show "loops (settle_batch cfg i nets s) =
        take i (loops s) @ drop (Suc i) (loops s) @
        (if messageQueue s = [] then []
         else [\<lparr>maxConcurrent = maxConcurrent (loops s ! i),
                batch = take (nat (maxConcurrent (loops s ! i))) (messageQueue s)\<rparr>])"
    by (simp add: settle_batch_eq loop_turn_def Let_def)
  from i show "messageQueue (settle_batch cfg i nets s) =
        drop (nat (maxConcurrent (loops s ! i))) (messageQueue s)"
    by (simp add: settle_batch_eq loop_turn_def Let_def)
  show "enqueued (settle_batch cfg i nets s) = enqueued s"
    by (rule settle_batch_enqueued)
qed

text \<open>
  With nothing reachable, the apology is generated, its delivery fails, and the fallback
  is attempted once to the same URL. The third task of a batch of three is the task of
  the third message. After six arrivals the batch of the first message settles: its
  task has run, and the loop goes on to the next three messages, two remaining.
\<close>

theorem batch_task_contained_witness:
  "fst (batch_task sample_config (text_message 1) (fresh_world offline)) = Inr () \<and>
   fst (processMessage sample_config (text_message 1) (fresh_world offline)) = Inr TEXT_APOLOGY \<and>
   length (dispatches None (emitted (fresh_world offline)
     (snd (batch_task sample_config (text_message 1) (fresh_world offline))))) = 2 \<and>
   hd (dispatches None (emitted (fresh_world offline)
     (snd (batch_task sample_config (text_message 1) (fresh_world offline))))) =
     (Some (reply_request sample_config (js ''https://chat.example.org/api/bot/reply/1'') TEXT_APOLOGY),
      False) \<and>
   fst (dispatches None (emitted (fresh_world offline)
     (snd (batch_task sample_config (text_message 1) (fresh_world offline)))) ! 1) =
     Some (reply_request sample_config (js ''https://chat.example.org/api/bot/reply/1'') errorMessage) \<and>
   (2::nat) < length [text_message 1, text_message 2, text_message 3] \<and>
   run_batch sample_config all_offline [text_message 1, text_message 2, text_message 3] ! 2 =
     batch_task sample_config (text_message 3) (fresh_world offline) \<and>
   0 < length (loops (run sample_config six_arrivals)) \<and>
   console (settle_batch sample_config 0 all_offline (run sample_config six_arrivals)) =
     console (run sample_config six_arrivals) @
     trace (snd (batch_task sample_config (text_message 0) (fresh_world offline))) \<and>
   map batch (loops (settle_batch sample_config 0 all_offline (run sample_config six_arrivals))) =
     [[text_message 1, text_message 2, text_message 3]] \<and>
   messageQueue (settle_batch sample_config 0 all_offline (run sample_config six_arrivals)) =
     [text_message 4, text_message 5]"
proof -
  have reply: "fst (processMessage sample_config (text_message 1) (fresh_world offline)) = Inr TEXT_APOLOGY"
    by (simp add: processMessage_text sample_kinds offline_backend)
  have "network (snd (processMessage sample_config (text_message 1) (fresh_world offline))) = offline"
    by (simp add: processMessage_network fresh_world_def)
  then have failed: "isl (fst (sendMessageToBot sample_config
      (js ''https://chat.example.org/api/bot/reply/1'') TEXT_APOLOGY
      (snd (processMessage sample_config (text_message 1) (fresh_world offline)))))"
    by (intro sendMessageToBot_unreachable) (simp add: offline_def)
  note contained = batch_task_contained [where cfg = sample_config and m = "text_message 1"
      and w = "fresh_world offline" and i = 0 and s = "run sample_config six_arrivals"
      and nets = all_offline and b = "[text_message 1, text_message 2, text_message 3]" and j = 2]
  let ?E = "emitted (fresh_world offline)
     (snd (batch_task sample_config (text_message 1) (fresh_world offline)))"
  let ?P = "Some (reply_request sample_config (js ''https://chat.example.org/api/bot/reply/1'') TEXT_APOLOGY)"
  let ?F = "Some (reply_request sample_config (js ''https://chat.example.org/api/bot/reply/1'') errorMessage)"
  have ok: "fst (batch_task sample_config (text_message 1) (fresh_world offline)) = Inr ()"
    using contained by (rule conjunct1)
  have "dispatches None ?E = [(?P, False), (?F, True)] \<or>
        dispatches None ?E = [(?P, False), (?F, False)] \<and>
        last ?E = EvLog (js ''Error sending error message to user'')"
    using contained [THEN conjunct2, THEN conjunct1]
    by (simp only: reply sum.case sample_reply_url failed if_True)
  then have calls: "length (dispatches None ?E) = 2" "hd (dispatches None ?E) = (?P, False)"
    "fst (dispatches None ?E ! 1) = ?F"
    by auto
  have third: "run_batch sample_config all_offline [text_message 1, text_message 2, text_message 3] ! 2 =
     batch_task sample_config (text_message 3) (fresh_world offline)"
    using contained [THEN conjunct2, THEN conjunct2, THEN conjunct2, THEN conjunct1]
    by (simp add: all_offline_def)
  have settled:
    "console (settle_batch sample_config 0 all_offline (run sample_config six_arrivals)) =
       console (run sample_config six_arrivals) @
       trace (snd (batch_task sample_config (text_message 0) (fresh_world offline)))"
    "loops (settle_batch sample_config 0 all_offline (run sample_config six_arrivals)) =
       [\<lparr>maxConcurrent = 3, batch = [text_message 1, text_message 2, text_message 3]\<rparr>]"
    "messageQueue (settle_batch sample_config 0 all_offline (run sample_config six_arrivals)) =
       [text_message 4, text_message 5]"
    using contained [THEN conjunct2, THEN conjunct2, THEN conjunct2, THEN conjunct2]
    by (simp_all add: six_arrivals_run all_offline_def)
  show ?thesis
    using ok reply calls third settled by (simp add: six_arrivals_run)
qed

lemma helpful_attempt: "network w = helpful \<Longrightarrow> attempt w j = result (helpful 0)"
  by (simp add: attempt_def helpful_def)

lemma helpful_reply: "network w = helpful \<Longrightarrow> backend_reply w = Inr (js ''Hi there.'')"
proof -
  assume net: "network w = helpful"
  have "read_reply (JObj [(js ''choices'',
               JArr [JObj [(js ''message'', JObj [(js ''content'', JStr (js '' Hi there. ''))])]])]) =
        Inr (js ''Hi there.'')"
    by code_simp
  then show ?thesis
    by (simp add: backend_reply_def helpful_attempt [OF net]) (simp add: helpful_def)
qed

lemma helpful_send:
  "network w = helpful \<Longrightarrow> fst (sendMessageToBot cfg url message w) = Inr ()"
  by (simp add: sendMessageToBot_fst helpful_attempt) (simp add: helpful_def)

lemma helpful_task:
  "fst (processMessage sample_config (text_message n) (fresh_world helpful)) = Inr (js ''Hi there.'')"
  "\<not> isl (fst (sendMessageToBot sample_config (reply_url sample_config (text_message n))
      (js ''Hi there.'') (snd (processMessage sample_config (text_message n) (fresh_world helpful)))))"
proof -
  have net: "network (fresh_world helpful) = helpful"
    by (simp add: fresh_world_def)
  show "fst (processMessage sample_config (text_message n) (fresh_world helpful)) = Inr (js ''Hi there.'')"
    by (simp add: processMessage_text sample_kinds helpful_reply [OF net])
  have "network (snd (processMessage sample_config (text_message n) (fresh_world helpful))) = helpful"
    by (simp add: processMessage_network net)
  then show "\<not> isl (fst (sendMessageToBot sample_config (reply_url sample_config (text_message n))
      (js ''Hi there.'') (snd (processMessage sample_config (text_message n) (fresh_world helpful)))))"
    by (simp add: helpful_send)
qed

text \<open>
  Claim C7, amended. On a non-empty queue a turn of the loop splices off the first
  \<open>min maxConcurrent (length queue)\<close> messages, in order, as the batch; the loop ends
  on a turn exactly when the queue is empty; the next turn is taken only once the batch
  has settled, all its tasks having run. Each task makes one or two deliveries (the
  reply, and the fallback message when the generation or that delivery fails), exactly
  one when the delivery of the reply succeeds. In every execution in which five
  messages wait in the queue, one loop is suspended on an earlier batch (a request that
  starts a loop finds the queue empty, so that loop's first batch is the one message of
  that request); when that batch has settled the next batch is the first three of the
  five, the one after it the other two, and then the loop ends with the flag cleared.
  Over these two batches the console grows by the traces of the five tasks, and between
  5 and 10 deliveries are attempted. (The claim has exactly one delivery per message,
  5 in all, whatever succeeds or fails.)
\<close>

theorem drain_in_batches:
  "(messageQueue s \<noteq> [] \<longrightarrow>
      (\<exists>b. loops (loop_turn n s) = loops s @ [\<lparr>maxConcurrent = n, batch = b\<rparr>] \<and>
           b @ messageQueue (loop_turn n s) = messageQueue s \<and>
           length b = min (nat n) (length (messageQueue s)))) \<and>
   (loops (loop_turn n s) = loops s \<longleftrightarrow> messageQueue s = []) \<and>
   (i < length (loops s) \<longrightarrow>
      settle_batch cfg i nets s =
        loop_turn (maxConcurrent (loops s ! i))
          (s\<lparr>loops := take i (loops s) @ drop (Suc i) (loops s),
             console := console s @
               concat (map (\<lambda>r. trace (snd r)) (run_batch cfg nets (batch (loops s ! i))))\<rparr>)) \<and>
   (1 \<le> send_calls (emitted w (snd (batch_task cfg m w))) \<and>
    send_calls (emitted w (snd (batch_task cfg m w))) \<le> 2) \<and>
   (fst (processMessage cfg m w) = Inr reply \<and>
    \<not> isl (fst (sendMessageToBot cfg (reply_url cfg m) reply (snd (processMessage cfg m w)))) \<longrightarrow>
      send_calls (emitted w (snd (batch_task cfg m w))) = 1) \<and>
   (length (messageQueue (run cfg acts)) = 5 \<longrightarrow>
      (let s1 = run cfg (acts @ [BatchSettled 0 nets0]);
           s2 = run cfg (acts @ [BatchSettled 0 nets0, BatchSettled 0 nets1]);
           s3 = run cfg (acts @ [BatchSettled 0 nets0, BatchSettled 0 nets1, BatchSettled 0 nets2])
       in length (loops (run cfg acts)) = 1 \<and>
          loops s1 = [\<lparr>maxConcurrent = 3, batch = take 3 (messageQueue (run cfg acts))\<rparr>] \<and>
          length (take 3 (messageQueue (run cfg acts))) = 3 \<and>
          loops s2 = [\<lparr>maxConcurrent = 3, batch = drop 3 (messageQueue (run cfg acts))\<rparr>] \<and>
          length (drop 3 (messageQueue (run cfg acts))) = 2 \<and>
          loops s3 = [] \<and> messageQueue s3 = [] \<and> processingPromise s3 = None \<and>
          console s3 = console s1 @
            concat (map (\<lambda>r. trace (snd r))
              (run_batch cfg nets1 (take 3 (messageQueue (run cfg acts))))) @
            concat (map (\<lambda>r. trace (snd r))
              (run_batch cfg nets2 (drop 3 (messageQueue (run cfg acts))))) \<and>
          5 \<le> send_calls (drop (length (console s1)) (console s3)) \<and>
          send_calls (drop (length (console s1)) (console s3)) \<le> 10))"
proof (intro conjI impI)
  assume "messageQueue s \<noteq> []"
  then show "\<exists>b. loops (loop_turn n s) = loops s @ [\<lparr>maxConcurrent = n, batch = b\<rparr>] \<and>
           b @ messageQueue (loop_turn n s) = messageQueue s \<and>
           length b = min (nat n) (length (messageQueue s))"
    by (simp add: loop_turn_def Let_def min.commute)
next
  show "loops (loop_turn n s) = loops s \<longleftrightarrow> messageQueue s = []"
    by (simp add: loop_turn_def Let_def)
next
  assume "i < length (loops s)"
  then show "settle_batch cfg i nets s =
        loop_turn (maxConcurrent (loops s ! i))
          (s\<lparr>loops := take i (loops s) @ drop (Suc i) (loops s),
             console := console s @
               concat (map (\<lambda>r. trace (snd r)) (run_batch cfg nets (batch (loops s ! i))))\<rparr>)"
    by (rule settle_batch_eq)
next
  show "1 \<le> send_calls (emitted w (snd (batch_task cfg m w)))"
    "send_calls (emitted w (snd (batch_task cfg m w))) \<le> 2"
    using batch_task_calls [of w cfg m] by simp_all
next
  assume sent: "fst (processMessage cfg m w) = Inr reply \<and>
    \<not> isl (fst (sendMessageToBot cfg (reply_url cfg m) reply (snd (processMessage cfg m w))))"
  obtain es where es: "trace (snd (batch_task cfg m w)) = trace w @ es"
    and shape: "case fst (processMessage cfg m w) of
        Inr reply \<Rightarrow>
          if isl (fst (sendMessageToBot cfg (reply_url cfg m) reply (snd (processMessage cfg m w))))
          then
            dispatches None es =
              [(Some (reply_request cfg (reply_url cfg m) reply), False),
               (Some (reply_request cfg (reply_url cfg m) errorMessage), True)] \<or>
            dispatches None es =
              [(Some (reply_request cfg (reply_url cfg m) reply), False),
               (Some (reply_request cfg (reply_url cfg m) errorMessage), False)] \<and>
            last es = EvLog (js ''Error sending error message to user'')
          else dispatches None es = [(Some (reply_request cfg (reply_url cfg m) reply), True)]
      | Inl e \<Rightarrow>
          dispatches None es = [(Some (reply_request cfg (reply_url cfg m) errorMessage), True)] \<or>
          dispatches None es = [(Some (reply_request cfg (reply_url cfg m) errorMessage), False)] \<and>
          last es = EvLog (js ''Error sending error message to user'')"
    using batch_task_dispatches [of cfg m w] by blast
  from shape sent have "length (dispatches None es) = 1"
    by simp
  then show "send_calls (emitted w (snd (batch_task cfg m w))) = 1"
    using es by (simp add: emitted_append dispatches_length)
next
  assume five: "length (messageQueue (run cfg acts)) = 5"
  let ?q = "messageQueue (run cfg acts)"
  let ?b1 = "concat (map (\<lambda>r. trace (snd r)) (run_batch cfg nets1 (take 3 ?q)))"
  let ?b2 = "concat (map (\<lambda>r. trace (snd r)) (run_batch cfg nets2 (drop 3 ?q)))"
  note drain = waiting_drain [OF five, of nets0 nets1 nets2]
  have console: "console (run cfg (acts @ [BatchSettled 0 nets0, BatchSettled 0 nets1, BatchSettled 0 nets2])) =
      console (run cfg (acts @ [BatchSettled 0 nets0])) @ ?b1 @ ?b2"
    using drain by simp
  have c1: "3 \<le> send_calls ?b1" "send_calls ?b1 \<le> 6"
    using run_batch_calls [of "take 3 ?q" cfg nets1] five by simp_all
  have c2: "2 \<le> send_calls ?b2" "send_calls ?b2 \<le> 4"
    using run_batch_calls [of "drop 3 ?q" cfg nets2] five by simp_all
  have calls: "send_calls (drop (length (console (run cfg (acts @ [BatchSettled 0 nets0]))))
      (console (run cfg (acts @ [BatchSettled 0 nets0, BatchSettled 0 nets1, BatchSettled 0 nets2])))) =
      send_calls ?b1 + send_calls ?b2"
    unfolding console by (simp add: send_calls_append)
  show "let s1 = run cfg (acts @ [BatchSettled 0 nets0]);
           s2 = run cfg (acts @ [BatchSettled 0 nets0, BatchSettled 0 nets1]);
           s3 = run cfg (acts @ [BatchSettled 0 nets0, BatchSettled 0 nets1, BatchSettled 0 nets2])
       in length (loops (run cfg acts)) = 1 \<and>
          loops s1 = [\<lparr>maxConcurrent = 3, batch = take 3 (messageQueue (run cfg acts))\<rparr>] \<and>
          length (take 3 (messageQueue (run cfg acts))) = 3 \<and>
          loops s2 = [\<lparr>maxConcurrent = 3, batch = drop 3 (messageQueue (run cfg acts))\<rparr>] \<and>
          length (drop 3 (messageQueue (run cfg acts))) = 2 \<and>
          loops s3 = [] \<and> messageQueue s3 = [] \<and> processingPromise s3 = None \<and>
          console s3 = console s1 @
            concat (map (\<lambda>r. trace (snd r))
              (run_batch cfg nets1 (take 3 (messageQueue (run cfg acts))))) @
            concat (map (\<lambda>r. trace (snd r))
              (run_batch cfg nets2 (drop 3 (messageQueue (run cfg acts))))) \<and>
          5 \<le> send_calls (drop (length (console s1)) (console s3)) \<and>
          send_calls (drop (length (console s1)) (console s3)) \<le> 10"
    unfolding Let_def calls
    using drain c1 c2 five by simp
qed

text \<open>
  Six messages arrive: the first is being answered and five wait. They are then taken
  as three and two, and the loop ends; on a network that answers, a task makes its one
  delivery.
\<close>

theorem drain_in_batches_witness:
  "length (messageQueue (run sample_config six_arrivals)) = 5 \<and>
   messageQueue (run sample_config six_arrivals) \<noteq> [] \<and>
   0 < length (loops (run sample_config six_arrivals)) \<and>
   map batch (loops (run sample_config six_arrivals)) = [[text_message 0]] \<and>
   map batch (loops (run sample_config (six_arrivals @ [BatchSettled 0 all_helpful]))) =
     [[text_message 1, text_message 2, text_message 3]] \<and>
   map batch (loops (run sample_config
     (six_arrivals @ [BatchSettled 0 all_helpful, BatchSettled 0 all_helpful]))) =
     [[text_message 4, text_message 5]] \<and>
   loops (run sample_config
     (six_arrivals @ [BatchSettled 0 all_helpful, BatchSettled 0 all_helpful, BatchSettled 0 all_helpful])) = [] \<and>
   processingPromise (run sample_config
     (six_arrivals @ [BatchSettled 0 all_helpful, BatchSettled 0 all_helpful, BatchSettled 0 all_helpful])) = None \<and>
   send_calls (emitted (fresh_world helpful)
     (snd (batch_task sample_config (text_message 1) (fresh_world helpful)))) = 1"
  using drain_in_batches [where s = "run sample_config six_arrivals" and n = 3 and i = 0
      and cfg = sample_config and nets = all_helpful and w = "fresh_world helpful"
      and m = "text_message 1" and reply = "js ''Hi there.''" and acts = six_arrivals
      and ?nets0.0 = all_helpful and ?nets1.0 = all_helpful and ?nets2.0 = all_helpful]
  by (simp add: six_arrivals_run Let_def helpful_task)

lemma broken_path: "encodeURIComponent (content (detail broken_image)) = Inl URIError"
  by (simp add: broken_image_def encodeURIComponent_def isLowSurrogate_def isHighSurrogate_def)

lemma broken_image_fallback_only:
  "map fst (dispatches None (trace (snd (batch_task sample_config broken_image (fresh_world net))))) =
     [Some (reply_request sample_config (reply_url sample_config broken_image) errorMessage)]"
proof -
  let ?w = "fresh_world net"
  have thrown: "fst (processMessage sample_config broken_image ?w) = Inl URIError"
    by (simp add: processMessage_unencodable sample_kinds broken_path)
  obtain es where es: "trace (snd (batch_task sample_config broken_image ?w)) = trace ?w @ es"
    and "case fst (processMessage sample_config broken_image ?w) of
        Inr reply \<Rightarrow>
          if isl (fst (sendMessageToBot sample_config (reply_url sample_config broken_image) reply
                (snd (processMessage sample_config broken_image ?w))))
          then
            dispatches None es =
              [(Some (reply_request sample_config (reply_url sample_config broken_image) reply), False),
               (Some (reply_request sample_config (reply_url sample_config broken_image) errorMessage), True)] \<or>
            dispatches None es =
              [(Some (reply_request sample_config (reply_url sample_config broken_image) reply), False),
               (Some (reply_request sample_config (reply_url sample_config broken_image) errorMessage), False)] \<and>
            last es = EvLog (js ''Error sending error message to user'')
          else dispatches None es =
                 [(Some (reply_request sample_config (reply_url sample_config broken_image) reply), True)]
      | Inl e \<Rightarrow>
          dispatches None es =
            [(Some (reply_request sample_config (reply_url sample_config broken_image) errorMessage), True)] \<or>
          dispatches None es =
            [(Some (reply_request sample_config (reply_url sample_config broken_image) errorMessage), False)] \<and>
          last es = EvLog (js ''Error sending error message to user'')"
    using batch_task_dispatches [of sample_config broken_image ?w] by blast
  then have "map fst (dispatches None es) =
     [Some (reply_request sample_config (reply_url sample_config broken_image) errorMessage)]"
    using thrown by auto
  then show ?thesis
    using es by (simp add: fresh_world_def)
qed

text \<open>
  Claim C7 as stated fails: six messages arrive, five of them waiting behind the first;
  with nothing reachable every one of the five gets two delivery attempts, 10 in all.
  (And a message whose reply cannot be generated gets no delivery of a reply at all:
  for the image with the unencodable path the one call of the dispatcher delivers the
  fallback message.)
\<close>

theorem drain_in_batches_counterexample:
  "send_calls
     (drop (length (console (run sample_config (six_arrivals @ [BatchSettled 0 all_offline]))))
        (console (run sample_config
          (six_arrivals @ [BatchSettled 0 all_offline, BatchSettled 0 all_offline,
             BatchSettled 0 all_offline])))) = 10 \<and>
   map fst (dispatches None (trace (snd (batch_task sample_config broken_image (fresh_world offline))))) =
     [Some (reply_request sample_config (js ''https://chat.example.org/api/bot/reply/13'')
        errorMessage)]"
proof
  have down: "\<forall>n. isl (result (offline n))"
    by (simp add: offline_def)
  have each: "send_calls (trace (snd (batch_task sample_config (text_message n) (fresh_world offline)))) = 2"
    for n
    using down by (rule batch_task_unreachable) (simp add: sample_kinds)
  have five: "length (messageQueue (run sample_config six_arrivals)) = 5"
    by (simp add: six_arrivals_run)
  show "send_calls
     (drop (length (console (run sample_config (six_arrivals @ [BatchSettled 0 all_offline]))))
        (console (run sample_config
          (six_arrivals @ [BatchSettled 0 all_offline, BatchSettled 0 all_offline,
             BatchSettled 0 all_offline])))) = 10"
    using waiting_drain [OF five, of all_offline all_offline all_offline]
    by (simp add: six_arrivals_run run_batch_def send_calls_append all_offline_def each)
  have "decimal 13 = js ''13''"
    by code_simp
  then have "reply_url sample_config broken_image = js ''https://chat.example.org/api/bot/reply/13''"
    by (simp add: reply_url_def sample_config_def broken_image_def js_append)
  then show "map fst (dispatches None (trace (snd (batch_task sample_config broken_image (fresh_world offline))))) =
     [Some (reply_request sample_config (js ''https://chat.example.org/api/bot/reply/13'')
        errorMessage)]"
    using broken_image_fallback_only [of offline] by simp
qed

subsection \<open>Ingress admission\<close>

lemma str_includes_sublist: "str_includes s t \<longleftrightarrow> sublist t s"
  by (induction s) (simp_all add: sublist_Cons_right)

lemma sublist_map_iff: "sublist x (map f s) \<longleftrightarrow> (\<exists>u. sublist u s \<and> map f u = x)"
proof
  assume "sublist x (map f s)"
  then obtain ps ss where "map f s = ps @ (x @ ss)"
    by (auto simp: sublist_def)
  then obtain a b where ab: "s = a @ b" "map f b = x @ ss"
    by (metis map_eq_append_conv)
  from ab(2) obtain u c where "b = u @ c" "map f u = x"
    by (metis map_eq_append_conv)
  with ab(1) show "\<exists>u. sublist u s \<and> map f u = x"
    by (auto simp: sublist_def)
next
  assume "\<exists>u. sublist u s \<and> map f u = x"
  then obtain u ps ss where "s = ps @ u @ ss" "map f u = x"
    by (auto simp: sublist_def)
  then have "map f s = map f ps @ x @ map f ss"
    by simp
  then show "sublist x (map f s)"
    unfolding sublist_def by blast
qed

lemma mentions_list:
  "list_ex (\<lambda>m. m = b)
     (case ps of None \<Rightarrow> [] | Some p \<Rightarrow> (case mentions p of None \<Rightarrow> [] | Some l \<Rightarrow> l)) \<longleftrightarrow>
   (\<exists>p l. ps = Some p \<and> mentions p = Some l \<and> b \<in> set l)"
proof (cases ps)
  case None
  then show ?thesis by simp
next
  case (Some p)
  then show ?thesis
    by (cases "mentions p") (simp_all add: list_ex_iff)
qed

lemma mentionedAtGroup_iff: "mentionedAtGroup cfg data \<longleftrightarrow> mentioned cfg data"
  unfolding mentionedAtGroup_def mentioned_def Let_def mentions_list
  by (simp add: str_includes_sublist toLowerCase_def sublist_map_iff)

lemma sample_mentions:
  "mentionedAtGroup sample_config (group_message 7 ''hey @ChatGPT'')"
  "\<not> mentionedAtGroup sample_config (group_message 7 ''hello'')"
  "mentionedAtGroup sample_config (group_message 2 ''@chatgpt hi'')"
  by code_simp+

text \<open>
  Claim C8, amended. For every POST event whose sender is not the bot, the response has
  status 200; an event that targets a group is enqueued if the bot is mentioned (its id
  in the list of mentions, or the text \<open>@\<close> followed by its id in the content, or the
  alias \<open>@chatgpt\<close> in the content in any capitalisation) and is otherwise dropped,
  leaving the queue, the loops and the flag as they were; a direct event is always
  enqueued. An enqueued message is afterwards in the queue or in the batch of a loop.
\<close>

theorem group_admission:
  assumes "from_uid data \<noteq> VOCECHAT_BOT_ID cfg"
  shows "http_status (fst (handler cfg (post data) s)) = 200 \<and>
    (case target data of
       ToGroup gid \<Rightarrow>
         if mentioned cfg data
         then enqueued (snd (handler cfg (post data) s)) = enqueued s @ [data] \<and>
              (data \<in> set (messageQueue (snd (handler cfg (post data) s))) \<or>
               (\<exists>l\<in>set (loops (snd (handler cfg (post data) s))). data \<in> set (batch l)))
         else enqueued (snd (handler cfg (post data) s)) = enqueued s \<and>
              messageQueue (snd (handler cfg (post data) s)) = messageQueue s \<and>
              loops (snd (handler cfg (post data) s)) = loops s \<and>
              processingPromise (snd (handler cfg (post data) s)) = processingPromise s
     | ToUser uid \<Rightarrow>
         enqueued (snd (handler cfg (post data) s)) = enqueued s @ [data] \<and>
         (data \<in> set (messageQueue (snd (handler cfg (post data) s))) \<or>
          (\<exists>l\<in>set (loops (snd (handler cfg (post data) s))). data \<in> set (batch l))))"
proof -
  have placed: "data \<in> set (take n (q @ [data])) \<or> data \<in> set (drop n (q @ [data]))" for n q
    using append_take_drop_id [of n "q @ [data]"]
    by (metis Un_iff in_set_conv_decomp set_append)
  show ?thesis
  proof (cases "target data")
    case (ToUser uid)
    with assms show ?thesis
      using placed [of 3 "messageQueue s"]
      apply (simp add: handler_def post_def Let_def in_group_def say_def processQueueParallel_def loop_turn_def)
      apply auto
      done
  next
    case (ToGroup gid)
    show ?thesis
    proof (cases "mentioned cfg data")
      case False
      with ToGroup assms show ?thesis
        by (simp add: handler_def post_def Let_def in_group_def say_def mentionedAtGroup_iff)
    next
      case True
      with ToGroup assms show ?thesis
        using placed [of 3 "messageQueue s"]
        apply (simp add: handler_def post_def Let_def in_group_def say_def mentionedAtGroup_iff processQueueParallel_def loop_turn_def)
        apply auto
        done
    qed
  qed
qed

text \<open>
  A group message that mentions the alias is enqueued, one that mentions nothing is
  dropped with status 200, a direct message is enqueued.
\<close>

theorem group_admission_witness:
  "mentioned sample_config (group_message 7 ''hey @ChatGPT'') \<and>
   enqueued (snd (handler sample_config (post (group_message 7 ''hey @ChatGPT'')) initial)) =
     [group_message 7 ''hey @ChatGPT''] \<and>
   \<not> mentioned sample_config (group_message 7 ''hello'') \<and>
   enqueued (snd (handler sample_config (post (group_message 7 ''hello'')) initial)) = [] \<and>
   http_status (fst (handler sample_config (post (group_message 7 ''hello'')) initial)) = 200 \<and>
   enqueued (snd (handler sample_config (post (text_message 1)) initial)) = [text_message 1]"
  using group_admission [of "group_message 7 ''hey @ChatGPT''" sample_config initial]
    group_admission [of "group_message 7 ''hello''" sample_config initial]
    group_admission [of "text_message 1" sample_config initial]
  by (simp add: sample_senders sample_mentions mentionedAtGroup_iff [symmetric] initial_def)

text \<open>
  Claim C8 as stated fails: a group message that mentions the bot but was sent by the
  bot itself is not enqueued (line 219).
\<close>

theorem group_admission_counterexample:
  "target (group_message 2 ''@chatgpt hi'') = ToGroup 5 \<and>
   mentionedAtGroup sample_config (group_message 2 ''@chatgpt hi'') \<and>
   enqueued (snd (handler sample_config (post (group_message 2 ''@chatgpt hi'')) initial)) = [] \<and>
   http_text (fst (handler sample_config (post (group_message 2 ''@chatgpt hi'')) initial)) =
     js ''ignore sent by bot self''"
  by (simp add: sample_senders sample_mentions handler_def post_def Let_def say_def initial_def)

end
